theory Spec2Isabelle
  imports Main "HOL-Library.Sublist"
begin

section \<open>The CESNET-L scraper (scrape\_cesnetl.py)\<close>

text \<open>
  The script is one top-level sequence of phases: read the two ledgers, find the missing
  weekly compilations (first re-try block), scrape every posting of every missing week
  (second re-try block), scrape the URLs inside the messages, write everything out.
  Every call that leaves the process (the browser, the helpers of shared\_scripts, the
  clock) is a field of an environment; the environment answers as a function of the
  history of calls made so far, so that a second attempt on the same URL may get a
  different answer than the first. An answer \<open>None\<close> means that the call raised.
  Strings are lists of characters with code points 0 to 255.
\<close>

subsection \<open>Values, pages and the environment\<close>

text \<open>A Python value as it is stored in a row (a Python list) of the output.\<close>

datatype pyval = PNone | PBool bool | PInt int | PStr string

text \<open>
  The exceptions that reach the top level. \<open>Fault\<close> is any exception raised by the
  browser or by a helper; all of them are subclasses of Exception. SystemExit is not.
\<close>

datatype exn = SystemExit | NameError | IndexError | TypeError | Fault

text \<open>An \<open>a\<close> element as BeautifulSoup shows it: its \<open>.string\<close> and its href attribute.\<close>

record anchor =
  a_string :: "string option"
  a_href :: "string option"

text \<open>What the script reads from a parsed page: the texts of the h2 elements and the anchors.\<close>

record soup =
  soup_h2 :: "string list"
  soup_a :: "anchor list"

text \<open>
  An \<open>li\<close> element of the archive index: its text, and the href of the \<open>a\<close> inside it
  (\<open>None\<close> when looking it up raises).
\<close>

record li =
  li_text :: string
  li_href :: "string option"

datatype event = OpenArchive | Get string | Login | Response string

type_synonym world = "event list"

record env =
  env_archive :: "world \<Rightarrow> li list option"
  env_get :: "world \<Rightarrow> string \<Rightarrow> string option"
  env_login :: "world \<Rightarrow> string option"
  env_parse :: "string \<Rightarrow> soup"
  env_extract_text :: "string \<Rightarrow> string option"
  env_check_salary :: "string \<Rightarrow> pyval option"
  env_extract_urls :: "pyval \<Rightarrow> string list option"
  env_response :: "world \<Rightarrow> string \<Rightarrow> string option"
  env_max_attempts :: nat
  env_now :: "world \<Rightarrow> string"

text \<open>
  \<open>env_archive\<close>: lines 247 to 277, logging in and listing the \<open>li\<close> elements of the archive.
  \<open>env_get\<close>: \<open>driver.get(url)\<close> followed by \<open>driver.page_source\<close>.
  \<open>env_login\<close>: \<open>login_cesnet\<close> followed by \<open>driver.page_source\<close>.
  \<open>env_parse\<close>: \<open>BeautifulSoup(source, 'html.parser')\<close>.
  \<open>env_extract_text\<close>, \<open>env_check_salary\<close>, \<open>env_extract_urls\<close>: the helpers of
  shared\_scripts, which are not part of this source file.
  \<open>env_response\<close>, \<open>env_max_attempts\<close>: one fetch inside \<open>get_selenium_response\<close> and its
  number of attempts.
  \<open>env_now\<close>: the formatted \<open>datetime.now()\<close>.
\<close>

subsection \<open>Parameters\<close>

definition ntries :: nat where
  "ntries = 15"

definition url_base :: string where
  "url_base = ''https://listserv.kent.edu''"

definition FAILURE :: pyval where
  "FAILURE = PStr ''FAILURE''"

subsection \<open>String helpers of Python\<close>

text \<open>\<open>sub in s\<close> on strings.\<close>

fun starts_with :: "string \<Rightarrow> string \<Rightarrow> bool" where
  "starts_with [] s = True"
| "starts_with (c # cs) [] = False"
| "starts_with (c # cs) (d # ds) = (c = d \<and> starts_with cs ds)"

fun str_in :: "string \<Rightarrow> string \<Rightarrow> bool" where
  "str_in sub [] = (sub = [])"
| "str_in sub (c # cs) = (starts_with sub (c # cs) \<or> str_in sub cs)"

text \<open>\<open>str.lower()\<close> on the code points 0 to 255.\<close>

definition lower_char :: "char \<Rightarrow> char" where
  "lower_char c =
     (let n = (of_char c :: nat)
      in if (65 \<le> n \<and> n \<le> 90) \<or> (192 \<le> n \<and> n \<le> 222 \<and> n \<noteq> 215)
         then char_of (n + 32) else c)"

definition lower :: "string \<Rightarrow> string" where
  "lower s = map lower_char s"

text \<open>\<open>str.strip()\<close> on the code points 0 to 255.\<close>

definition is_space :: "char \<Rightarrow> bool" where
  "is_space c = ((of_char c :: nat) \<in> {9, 10, 11, 12, 13, 28, 29, 30, 31, 32, 133, 160})"

definition strip :: "string \<Rightarrow> string" where
  "strip s = rev (dropWhile is_space (rev (dropWhile is_space s)))"

subsection \<open>The functions of the script\<close>

text \<open>
  The three filters return \<open>text and (...)\<close>; BeautifulSoup only looks at the truth value,
  which is what the model returns. \<open>None\<close> and the empty string are false.
\<close>

definition contains_posting :: "string option \<Rightarrow> bool" where
  "contains_posting text =
     (case text of
        None \<Rightarrow> False
      | Some t \<Rightarrow> t \<noteq> [] \<and>
          (str_in ''faculty'' (lower t) \<or> str_in ''professor'' (lower t) \<or>
           str_in ''position'' (lower t) \<or> str_in ''instructor'' (lower t)))"

definition contains_plain_text :: "string option \<Rightarrow> bool" where
  "contains_plain_text text =
     (case text of None \<Rightarrow> False | Some t \<Rightarrow> t \<noteq> [] \<and> str_in ''text/plain'' (lower t))"

definition contains_html :: "string option \<Rightarrow> bool" where
  "contains_html text =
     (case text of None \<Rightarrow> False | Some t \<Rightarrow> t \<noteq> [] \<and> str_in ''text/html'' (lower t))"

definition login_text :: string where
  "login_text = ''Please enter your email address and your LISTSERV password and click on the ''
     @ [CHR 0x22] @ ''Log In'' @ [CHR 0x22] @ '' button.''"

definition check_login_required :: "string \<Rightarrow> bool" where
  "check_login_required source_code = str_in login_text source_code"

text \<open>
  The script repeats one sequence five times: \<open>driver.get(url)\<close>, sleep, log in when the
  page asks for it, read \<open>driver.page_source\<close>. It is written once here.
\<close>

definition visit :: "env \<Rightarrow> world \<Rightarrow> string \<Rightarrow> (exn + string) \<times> world" where
  "visit e w url =
     (case env_get e w url of
        None \<Rightarrow> (Inl Fault, w @ [Get url])
      | Some src \<Rightarrow>
          if check_login_required src
          then (case env_login e (w @ [Get url]) of
                  None \<Rightarrow> (Inl Fault, w @ [Get url, Login])
                | Some src' \<Rightarrow> (Inr src', w @ [Get url, Login]))
          else (Inr src, w @ [Get url]))"

subsection \<open>Scrape the compilation (first re-try block)\<close>

text \<open>Line 344 and line 394: the URLs of the postings of a compilation page.\<close>

definition posting_urls :: "soup \<Rightarrow> string list" where
  "posting_urls s =
     List.map_filter
       (\<lambda>a. case a_href a of
              None \<Rightarrow> None
            | Some h \<Rightarrow> if contains_posting (a_string a) \<and> str_in ''https'' h then Some h else None)
       (soup_a s)"

text \<open>
  Lines 315 to 349 and 365 to 399: go to a compilation and return \<open>[week, urls]\<close>. The
  week is the text of the second h2 element.
\<close>

definition get_compilation ::
  "env \<Rightarrow> world \<Rightarrow> string \<Rightarrow> (exn + string \<times> string list) \<times> world" where
  "get_compilation e w url =
     (case visit e w url of
        (Inl x, w') \<Rightarrow> (Inl x, w')
      | (Inr source_code, w') \<Rightarrow>
          (let soup_compilation = env_parse e source_code
           in if length (soup_h2 soup_compilation) < 2 then (Inl IndexError, w')
              else (Inr (strip (soup_h2 soup_compilation ! 1), posting_urls soup_compilation), w')))"

text \<open>Lines 309 to 355 and 359 to 405: a compilation is scraped when its label is not the last one collected.\<close>

definition collect_missing ::
  "env \<Rightarrow> string \<Rightarrow> string \<Rightarrow> string \<Rightarrow> (string \<times> string list) list \<Rightarrow> world
     \<Rightarrow> (exn + (string \<times> string list) list) \<times> world" where
  "collect_missing e label last_compilation_collected url missing_compilations_data w =
     (if label \<noteq> last_compilation_collected
      then (case get_compilation e w url of
              (Inl x, w') \<Rightarrow> (Inl x, w')
            | (Inr missing_compilation, w') \<Rightarrow>
                (Inr (missing_compilations_data @ [missing_compilation]), w'))
      else (Inr missing_compilations_data, w))"

text \<open>The body of the \<open>try\<close> of the first re-try block (lines 246 to 409).\<close>

definition attempt_index ::
  "env \<Rightarrow> string \<Rightarrow> string \<Rightarrow> world \<Rightarrow> (exn + (string \<times> string list) list) \<times> world" where
  "attempt_index e last_compilation_collected previous_to_last_compilation_collected w =
     (case env_archive e w of
        None \<Rightarrow> (Inl Fault, w @ [OpenArchive])
      | Some li_elements \<Rightarrow>
          if length li_elements < 3 then (Inl IndexError, w @ [OpenArchive])
          else if li_text (li_elements ! 1) = last_compilation_collected
                  \<and> li_text (li_elements ! 2) = previous_to_last_compilation_collected
          then (Inl SystemExit, w @ [OpenArchive])
          else (case li_href (li_elements ! 1) of
                  None \<Rightarrow> (Inl Fault, w @ [OpenArchive])
                | Some previous_to_latest_compilation_url \<Rightarrow>
                    (case li_href (li_elements ! 2) of
                       None \<Rightarrow> (Inl Fault, w @ [OpenArchive])
                     | Some previous_to_previous_to_latest_compilation_url \<Rightarrow>
                         (case collect_missing e (li_text (li_elements ! 2)) last_compilation_collected
                                 previous_to_previous_to_latest_compilation_url [] (w @ [OpenArchive]) of
                            (Inl x, w') \<Rightarrow> (Inl x, w')
                          | (Inr missing_compilations_data, w') \<Rightarrow>
                              collect_missing e (li_text (li_elements ! 1)) last_compilation_collected
                                previous_to_latest_compilation_url missing_compilations_data w'))))"

text \<open>
  \<open>for attempt in range(ntries)\<close>, by the number of attempts that remain. SystemExit is
  not caught by \<open>except Exception\<close>. The last attempt raises again what it caught. With no
  attempt at all the loop would end without binding \<open>missing_compilations_data\<close>.
\<close>

fun first_retry_block ::
  "env \<Rightarrow> string \<Rightarrow> string \<Rightarrow> nat \<Rightarrow> world \<Rightarrow> (exn + (string \<times> string list) list) \<times> world" where
  "first_retry_block e l p 0 w = (Inl NameError, w)"
| "first_retry_block e l p (Suc remaining) w =
     (case attempt_index e l p w of
        (Inr missing_compilations_data, w') \<Rightarrow> (Inr missing_compilations_data, w')
      | (Inl SystemExit, w') \<Rightarrow> (Inl SystemExit, w')
      | (Inl x, w') \<Rightarrow>
          if 0 < remaining then first_retry_block e l p remaining w' else (Inl x, w'))"

subsection \<open>Scrape the messages within the compilation (second re-try block)\<close>

text \<open>
  \<open>soup.find('a', href = True, string = flt)\<close>: the first anchor that has an href and
  whose string passes the filter, or None.

  Lines 493 to 530 and lines 538 to 575 are the same statements but for the filter of
  the link: find the link of the message (subscripting the None of a link that is not
  there raises TypeError), go there, extract the text, check the salary. The three
  appends to \<open>data_posting\<close> come last and cannot raise; they are returned.
\<close>

definition soup_find :: "(string option \<Rightarrow> bool) \<Rightarrow> soup \<Rightarrow> anchor option" where
  "soup_find flt s = find (\<lambda>a. a_href a \<noteq> None \<and> flt (a_string a)) (soup_a s)"

definition message_tier ::
  "(string option \<Rightarrow> bool) \<Rightarrow> env \<Rightarrow> world \<Rightarrow> soup \<Rightarrow> (exn + pyval list) \<times> world" where
  "message_tier flt e w soup_posting =
     (case soup_find flt soup_posting of
        None \<Rightarrow> (Inl TypeError, w)
      | Some a \<Rightarrow>
          (case visit e w (url_base @ the (a_href a)) of
             (Inl x, w') \<Rightarrow> (Inl x, w')
           | (Inr source_code_message, w') \<Rightarrow>
               (case env_extract_text e source_code_message of
                  None \<Rightarrow> (Inl Fault, w')
                | Some text \<Rightarrow>
                    (case env_check_salary e text of
                       None \<Rightarrow> (Inl Fault, w')
                     | Some salary_flag \<Rightarrow>
                         (Inr [salary_flag, PStr source_code_message, PStr text], w')))))"

definition plain_tier :: "env \<Rightarrow> world \<Rightarrow> soup \<Rightarrow> (exn + pyval list) \<times> world" where
  "plain_tier = message_tier contains_plain_text"

definition html_tier :: "env \<Rightarrow> world \<Rightarrow> soup \<Rightarrow> (exn + pyval list) \<times> world" where
  "html_tier = message_tier contains_html"

text \<open>
  The inner \<open>try\<close> with its bare \<open>except\<close> (lines 489 to 575): whatever the plain text
  statements raise, the HTML statements run next.
\<close>

definition message_lookup :: "env \<Rightarrow> world \<Rightarrow> soup \<Rightarrow> (exn + pyval list) \<times> world" where
  "message_lookup e w soup_posting =
     (case plain_tier e w soup_posting of
        (Inr stored, w') \<Rightarrow> (Inr stored, w')
      | (Inl x, w') \<Rightarrow> html_tier e w' soup_posting)"

text \<open>The body of the \<open>try\<close> of the second re-try block (lines 468 to 579).\<close>

definition attempt_posting :: "env \<Rightarrow> world \<Rightarrow> string \<Rightarrow> (exn + pyval list) \<times> world" where
  "attempt_posting e w url =
     (case visit e w url of
        (Inl x, w') \<Rightarrow> (Inl x, w')
      | (Inr source_code_posting, w') \<Rightarrow> message_lookup e w' (env_parse e source_code_posting))"

text \<open>
  \<open>for attempt in range(ntries)\<close> (lines 464 to 603), by the number of attempts that
  remain; it returns \<open>data_posting\<close> and \<open>data_compilation\<close> as they are when the loop is
  left. Nothing raised in the body is a SystemExit, so \<open>except Exception\<close> catches it.
\<close>

fun second_retry_block ::
  "env \<Rightarrow> string \<Rightarrow> nat \<Rightarrow> pyval list \<Rightarrow> pyval list list \<Rightarrow> world
     \<Rightarrow> pyval list \<times> pyval list list \<times> world" where
  "second_retry_block e url 0 data_posting data_compilation w = (data_posting, data_compilation, w)"
| "second_retry_block e url (Suc remaining) data_posting data_compilation w =
     (case attempt_posting e w url of
        (Inr stored, w') \<Rightarrow> (data_posting @ stored, data_compilation, w')
      | (Inl x, w') \<Rightarrow>
          if 0 < remaining
          then second_retry_block e url remaining data_posting data_compilation w'
          else (data_posting @ [FAILURE, FAILURE, FAILURE],
                data_compilation @ [data_posting @ [FAILURE, FAILURE, FAILURE]], w'))"

text \<open>One round of \<open>for url in urls\<close> (lines 443 to 607).\<close>

definition scrape_url ::
  "env \<Rightarrow> nat \<Rightarrow> string \<Rightarrow> string \<Rightarrow> pyval list list \<times> world \<Rightarrow> pyval list list \<times> world" where
  "scrape_url e n_compilations week url st =
     (case st of (data_compilation, w) \<Rightarrow>
        (case second_retry_block e url ntries
                [PInt (int n_compilations + int (length data_compilation) + 1),
                 PStr week, PStr url, PStr (env_now e w)]
                data_compilation w of
           (data_posting, data_compilation', w') \<Rightarrow> (data_compilation' @ [data_posting], w')))"

text \<open>
  \<open>for missing_compilation in missing_compilations_data\<close> (lines 427 to 614). The name
  \<open>url\<close> is bound by \<open>for url in urls\<close> only; \<open>url_var\<close> is its value, \<open>None\<close> while it is
  unbound.
\<close>

fun scrape_messages ::
  "env \<Rightarrow> nat \<Rightarrow> (string \<times> string list) list \<Rightarrow> string option \<Rightarrow> pyval list list \<Rightarrow> world
     \<Rightarrow> (exn + pyval list list) \<times> world" where
  "scrape_messages e n_compilations [] url_var data_compilation w = (Inr data_compilation, w)"
| "scrape_messages e n_compilations ((week, urls) # rest) url_var data_compilation w =
     (if 0 < length urls
      then (case fold (scrape_url e n_compilations week) urls (data_compilation, w) of
              (data_compilation', w') \<Rightarrow>
                scrape_messages e n_compilations rest (Some (last urls)) data_compilation' w')
      else (case url_var of
              None \<Rightarrow> (Inl NameError, w)
            | Some url \<Rightarrow>
                scrape_messages e n_compilations rest url_var
                  (data_compilation @
                     [[PInt (int n_compilations + int (length data_compilation) + 1),
                       PStr week, PStr url, PStr (env_now e w), PNone, PNone, PNone]])
                  w))"

subsection \<open>Scrape the URLs inside the messages\<close>

text \<open>
  Modelled from the spec: \<open>get_selenium_response\<close> of shared\_scripts.scraper is not part
  of this source file. The spec (4.3 and 4.5) has every embedded URL fetched by its
  RetryExecutor: the operation runs up to \<open>max_attempts\<close> times, a success returns at
  once, a failure is tried again, and the fault of the final attempt is raised to the
  caller. With no attempt there is no page to return.
\<close>

fun get_selenium_response :: "env \<Rightarrow> string \<Rightarrow> nat \<Rightarrow> world \<Rightarrow> (exn + string) \<times> world" where
  "get_selenium_response e url 0 w = (Inl Fault, w)"
| "get_selenium_response e url (Suc remaining) w =
     (case env_response e w url of
        Some source_code \<Rightarrow> (Inr source_code, w @ [Response url])
      | None \<Rightarrow>
          if 0 < remaining then get_selenium_response e url remaining (w @ [Response url])
          else (Inl Fault, w @ [Response url]))"

text \<open>
  One round of \<open>for url_in_message in urls_in_message\<close> (lines 638 to 690). Nothing
  here catches what the calls raise.
\<close>

definition scrape_url_in_message ::
  "env \<Rightarrow> nat \<Rightarrow> pyval list \<Rightarrow> string \<Rightarrow> pyval list list \<Rightarrow> world
     \<Rightarrow> (exn + pyval list list) \<times> world" where
  "scrape_url_in_message e n_urls data_posting url_in_message out w =
     (if length data_posting < 3 then (Inl IndexError, w)
      else (case get_selenium_response e url_in_message (env_max_attempts e) w of
              (Inl x, w') \<Rightarrow> (Inl x, w')
            | (Inr source_code, w') \<Rightarrow>
                (case env_extract_text e source_code of
                   None \<Rightarrow> (Inl Fault, w')
                 | Some text_in_url \<Rightarrow>
                     (case env_check_salary e text_in_url of
                        None \<Rightarrow> (Inl Fault, w')
                      | Some salary_flag \<Rightarrow>
                          (Inr (out @
                                 [[data_posting ! 0,
                                   PInt (int n_urls + int (length out) + 1),
                                   data_posting ! 1, data_posting ! 2,
                                   PStr url_in_message, PStr (env_now e w),
                                   salary_flag, PStr source_code, PStr text_in_url]]),
                           w')))))"

fun for_urls_in_message ::
  "env \<Rightarrow> nat \<Rightarrow> pyval list \<Rightarrow> string list \<Rightarrow> pyval list list \<Rightarrow> world
     \<Rightarrow> (exn + pyval list list) \<times> world" where
  "for_urls_in_message e n_urls data_posting [] out w = (Inr out, w)"
| "for_urls_in_message e n_urls data_posting (url_in_message # rest) out w =
     (case scrape_url_in_message e n_urls data_posting url_in_message out w of
        (Inl x, w') \<Rightarrow> (Inl x, w')
      | (Inr out', w') \<Rightarrow> for_urls_in_message e n_urls data_posting rest out' w')"

text \<open>
  \<open>for data_posting in data_compilation\<close> (lines 626 to 690); \<open>out\<close> is
  \<open>data_compilation_urls_inside_messages\<close>. Every row is given to \<open>extract_urls\<close>,
  whatever its text is.
\<close>

fun scrape_urls_inside_messages ::
  "env \<Rightarrow> nat \<Rightarrow> pyval list list \<Rightarrow> pyval list list \<Rightarrow> world
     \<Rightarrow> (exn + pyval list list) \<times> world" where
  "scrape_urls_inside_messages e n_urls [] out w = (Inr out, w)"
| "scrape_urls_inside_messages e n_urls (data_posting # rest) out w =
     (if data_posting = [] then (Inl IndexError, w)
      else (case env_extract_urls e (last data_posting) of
              None \<Rightarrow> (Inl Fault, w)
            | Some urls_in_message \<Rightarrow>
                (case for_urls_in_message e n_urls data_posting urls_in_message out w of
                   (Inl x, w') \<Rightarrow> (Inl x, w')
                 | (Inr out', w') \<Rightarrow> scrape_urls_inside_messages e n_urls rest out' w')))"

subsection \<open>The run\<close>

text \<open>
  \<open>rows\<close> is column B of the sheet of the postings, \<open>n_urls\<close> the number of rows of the
  sheet of the URLs. \<open>list(dict.fromkeys(...))\<close> keeps the first occurrence of every
  week. The result is the two lists that the script then writes to the sheets; when
  something is raised nothing has been written.
\<close>

definition run ::
  "env \<Rightarrow> string list \<Rightarrow> nat \<Rightarrow> (exn + pyval list list \<times> pyval list list) \<times> world" where
  "run e rows n_urls =
     (let weeks = rev (remdups (rev rows))
      in if length weeks < 2 then (Inl IndexError, [])
         else (case first_retry_block e (last weeks) (weeks ! (length weeks - 2)) ntries [] of
                 (Inl x, w) \<Rightarrow> (Inl x, w)
               | (Inr missing_compilations_data, w) \<Rightarrow>
                   (case scrape_messages e (length rows) missing_compilations_data None [] w of
                      (Inl x, w') \<Rightarrow> (Inl x, w')
                    | (Inr data_compilation, w') \<Rightarrow>
                        (case scrape_urls_inside_messages e n_urls data_compilation [] w' of
                           (Inl x, w'') \<Rightarrow> (Inl x, w'')
                         | (Inr out, w'') \<Rightarrow> (Inr (data_compilation, out), w'')))))"

section \<open>Notions used to state the properties\<close>

text \<open>Every one of the next \<open>remaining\<close> attempts on a posting raises, from the world \<open>w\<close> on.\<close>

fun all_attempts_fail :: "env \<Rightarrow> string \<Rightarrow> nat \<Rightarrow> world \<Rightarrow> bool" where
  "all_attempts_fail e url 0 w = True"
| "all_attempts_fail e url (Suc remaining) w =
     (case attempt_posting e w url of
        (Inl x, w') \<Rightarrow> all_attempts_fail e url remaining w'
      | (Inr stored, w') \<Rightarrow> False)"

text \<open>
  What up to \<open>remaining\<close> attempts on a posting give, from the world \<open>w\<close> on: what the
  first attempt that does not raise has stored, or nothing when each of them raises.
\<close>

fun first_success :: "env \<Rightarrow> string \<Rightarrow> nat \<Rightarrow> world \<Rightarrow> pyval list option \<times> world" where
  "first_success e url 0 w = (None, w)"
| "first_success e url (Suc remaining) w =
     (case attempt_posting e w url of
        (Inr stored, w') \<Rightarrow> (Some stored, w')
      | (Inl x, w') \<Rightarrow> first_success e url remaining w')"

text \<open>The four values \<open>data_posting\<close> holds before the second re-try block (lines 447 to 459).\<close>

definition posting_row :: "env \<Rightarrow> nat \<Rightarrow> string \<Rightarrow> string \<Rightarrow> pyval list list \<Rightarrow> world \<Rightarrow> pyval list" where
  "posting_row e n week url dc w =
     [PInt (int n + int (length dc) + 1), PStr week, PStr url, PStr (env_now e w)]"

text \<open>
  The state of \<open>for url in urls\<close> after \<open>k\<close> rounds, and the rows that round \<open>k\<close>
  (the one of \<open>urls ! k\<close>) appended to \<open>data_compilation\<close>.
\<close>

definition after_urls ::
  "env \<Rightarrow> nat \<Rightarrow> string \<Rightarrow> string list \<Rightarrow> pyval list list \<times> world \<Rightarrow> nat \<Rightarrow> pyval list list \<times> world" where
  "after_urls e n week urls st k = fold (scrape_url e n week) (take k urls) st"

definition rows_of_round ::
  "env \<Rightarrow> nat \<Rightarrow> string \<Rightarrow> string list \<Rightarrow> pyval list list \<times> world \<Rightarrow> nat \<Rightarrow> pyval list list" where
  "rows_of_round e n week urls st k =
     drop (length (fst (after_urls e n week urls st k))) (fst (after_urls e n week urls st (Suc k)))"

text \<open>The words of \<open>contains_posting\<close>, and an href that is an absolute URL of scheme https.\<close>

definition posting_words :: "string list" where
  "posting_words = [''faculty'', ''professor'', ''position'', ''instructor'']"

definition https_scheme :: "string \<Rightarrow> bool" where
  "https_scheme href = starts_with ''https:'' (lower href)"

subsection \<open>A small site to run the script on\<close>

text \<open>
  The archive lists the weeks W4, W3 and W2. The compilation of W3 has two postings:
  p1 cannot be reached, p2 has a plain text message. The compilation of W2 has no
  posting. The posting p3 has both links, and its plain text message cannot be
  reached. The source of a page is its URL.
\<close>

definition example_index :: "li list" where
  "example_index =
     [\<lparr>li_text = ''W4'', li_href = Some ''https://a/w4''\<rparr>,
      \<lparr>li_text = ''W3'', li_href = Some ''https://a/w3''\<rparr>,
      \<lparr>li_text = ''W2'', li_href = Some ''https://a/w2''\<rparr>]"

definition example_parse :: "string \<Rightarrow> soup" where
  "example_parse source_code =
     (if source_code = ''https://a/w3'' then
        \<lparr>soup_h2 = [''CESNET-L'', '' W3 ''],
         soup_a = [\<lparr>a_string = Some ''Faculty job'', a_href = Some ''https://a/p1''\<rparr>,
                   \<lparr>a_string = Some ''Assistant Professor'', a_href = Some ''https://a/p2''\<rparr>]\<rparr>
      else if source_code = ''https://a/w2'' then
        \<lparr>soup_h2 = [''CESNET-L'', ''W2''],
         soup_a = [\<lparr>a_string = Some ''click here'', a_href = Some ''https://a/p0''\<rparr>]\<rparr>
      else if source_code = ''https://a/p2'' then
        \<lparr>soup_h2 = [], soup_a = [\<lparr>a_string = Some ''text/plain'', a_href = Some ''/m2''\<rparr>]\<rparr>
      else if source_code = ''https://a/p3'' then
        \<lparr>soup_h2 = [],
         soup_a = [\<lparr>a_string = Some ''text/plain'', a_href = Some ''/m3p''\<rparr>,
                   \<lparr>a_string = Some ''text/html'', a_href = Some ''/m3h''\<rparr>]\<rparr>
      else \<lparr>soup_h2 = [], soup_a = []\<rparr>)"

definition example_env :: env where
  "example_env =
     \<lparr>env_archive = (\<lambda>w. Some example_index),
      env_get = (\<lambda>w url. if url \<in> set [''https://a/w3'', ''https://a/w2'', ''https://a/p2'',
                                        ''https://a/p3'', ''https://listserv.kent.edu/m2'',
                                        ''https://listserv.kent.edu/m3h'']
                          then Some url else None),
      env_login = (\<lambda>w. None),
      env_parse = example_parse,
      env_extract_text = (\<lambda>source_code. Some ''see http://x.y''),
      env_check_salary = (\<lambda>text. Some (PBool False)),
      env_extract_urls = (\<lambda>v. if v = PStr ''see http://x.y'' then Some [''http://x.y'']
                               else if v = PNone then None else Some []),
      env_response = (\<lambda>w url. Some ''page''),
      env_max_attempts = 3,
      env_now = (\<lambda>w. ''2024-08-19 06:00:00'')\<rparr>"

definition example_compilation :: soup where
  "example_compilation =
     \<lparr>soup_h2 = [],
      soup_a = [\<lparr>a_string = Some ''Assistant Professor of X'', a_href = Some ''https://x.edu/job''\<rparr>,
                \<lparr>a_string = Some ''click here'', a_href = Some ''https://x.edu/job''\<rparr>,
                \<lparr>a_string = Some ''Lecturer Position'', a_href = Some ''http://insecure.example''\<rparr>,
                \<lparr>a_string = Some ''Lecturer Position'', a_href = Some ''http://insecure.example/https''\<rparr>,
                \<lparr>a_string = None, a_href = Some ''https://x.edu/faculty''\<rparr>,
                \<lparr>a_string = Some ''Faculty'', a_href = None\<rparr>]\<rparr>"

text \<open>Every one of the next \<open>remaining\<close> fetches of an embedded URL raises, from the world \<open>w\<close> on.\<close>

fun all_responses_fail :: "env \<Rightarrow> string \<Rightarrow> nat \<Rightarrow> world \<Rightarrow> bool" where
  "all_responses_fail e url 0 w = True"
| "all_responses_fail e url (Suc remaining) w =
     (env_response e w url = None \<and> all_responses_fail e url remaining (w @ [Response url]))"

text \<open>
  Modelled from the spec: \<open>extract_urls\<close> of shared\_scripts.url\_extractor is not part of
  this source file. The spec (4.6) says that, given plain text, it produces the sequence
  of substrings matching a URL pattern. The pattern is a parameter; what the helper does
  on a value that is not a text is left open but for this: it returns no URL that is not
  a substring of a text.
\<close>

definition url_extractor_spec :: "(string \<Rightarrow> bool) \<Rightarrow> (pyval \<Rightarrow> string list option) \<Rightarrow> bool" where
  "url_extractor_spec url_pattern extract =
     (\<forall>v urls. extract v = Some urls \<longrightarrow>
        (\<forall>u \<in> set urls. \<exists>text. v = PStr text \<and> str_in u text \<and> url_pattern u))"

subsection \<open>Variants of the small site\<close>

text \<open>
  The archive cannot be opened twice and opens the third time; no embedded URL can be
  fetched; the only URL pattern of the small site.
\<close>

definition example_slow_env :: env where
  "example_slow_env = example_env\<lparr>env_archive := (\<lambda>w. if length w < 2 then None else Some example_index)\<rparr>"

definition example_offline_env :: env where
  "example_offline_env = example_env\<lparr>env_response := (\<lambda>w url. None)\<rparr>"

definition example_url_pattern :: "string \<Rightarrow> bool" where
  "example_url_pattern u = (u = ''http://x.y'')"

section \<open>Properties\<close>

subsection \<open>The re-try block of a posting\<close>

lemma second_retry_block_exhausted:
  "all_attempts_fail e url (Suc r) w \<Longrightarrow>
   \<exists>w'. second_retry_block e url (Suc r) dp dc w =
     (dp @ [FAILURE, FAILURE, FAILURE], dc @ [dp @ [FAILURE, FAILURE, FAILURE]], w')"
proof (induction r arbitrary: w)
  case 0
  then show ?case by (auto split: prod.splits sum.splits)
next
  case (Suc r)
  obtain res w1 where a: "attempt_posting e w url = (res, w1)" by (cases "attempt_posting e w url")
  with Suc.prems obtain x where res: "res = Inl x" and rest: "all_attempts_fail e url (Suc r) w1"
    by (cases res) auto
  from Suc.IH [OF rest] obtain w' where
    "second_retry_block e url (Suc r) dp dc w1 =
       (dp @ [FAILURE, FAILURE, FAILURE], dc @ [dp @ [FAILURE, FAILURE, FAILURE]], w')" by blast
  with a res show ?case by simp
qed

lemma message_tier_length:
  "message_tier flt e w s = (Inr stored, w') \<Longrightarrow> length stored = 3"
  by (auto simp: message_tier_def split: option.splits prod.splits sum.splits)

lemma attempt_posting_length:
  "attempt_posting e w url = (Inr stored, w') \<Longrightarrow> length stored = 3"
  by (auto simp: attempt_posting_def message_lookup_def plain_tier_def html_tier_def
      split: prod.splits sum.splits dest: message_tier_length)

lemma second_retry_block_cases:
  "second_retry_block e url (Suc r) dp dc w = (dp', dc', w') \<Longrightarrow>
     (\<exists>stored. length stored = 3 \<and> dp' = dp @ stored \<and> dc' = dc) \<or>
     (dp' = dp @ [FAILURE, FAILURE, FAILURE] \<and> dc' = dc @ [dp'])"
proof (induction r arbitrary: w)
  case 0
  then show ?case
    by (auto split: prod.splits sum.splits dest: attempt_posting_length)
next
  case (Suc r)
  then show ?case
    by (auto split: prod.splits sum.splits dest: attempt_posting_length simp del: second_retry_block.simps(2) simp add: second_retry_block.simps(2)[of _ _ "Suc r"])
qed

lemma ntries_Suc: "ntries = Suc 14"
  by (simp add: ntries_def)

lemma scrape_url_exhausted:
  assumes "all_attempts_fail e url ntries w"
  shows "\<exists>w'. scrape_url e n week url (dc, w) =
           (dc @ [posting_row e n week url dc w @ [FAILURE, FAILURE, FAILURE],
                  posting_row e n week url dc w @ [FAILURE, FAILURE, FAILURE]], w')"
proof -
  from assms have "all_attempts_fail e url (Suc 14) w" by (simp add: ntries_Suc)
  from second_retry_block_exhausted [OF this, of "posting_row e n week url dc w" dc]
  show ?thesis by (auto simp: scrape_url_def ntries_Suc posting_row_def)
qed

lemma scrape_url_cases:
  "\<exists>stored w'. length stored = 3 \<and>
     (scrape_url e n week url (dc, w) = (dc @ [posting_row e n week url dc w @ stored], w') \<or>
      scrape_url e n week url (dc, w) =
        (dc @ [posting_row e n week url dc w @ stored, posting_row e n week url dc w @ stored], w'))"
proof -
  obtain dp' dc' w' where r: "second_retry_block e url (Suc 14) (posting_row e n week url dc w) dc w = (dp', dc', w')"
    by (cases "second_retry_block e url (Suc 14) (posting_row e n week url dc w) dc w") auto
  from second_retry_block_cases [OF r] r show ?thesis
    by (auto simp: scrape_url_def ntries_Suc posting_row_def FAILURE_def)
qed

lemma fold_take_Suc:
  "i < length xs \<Longrightarrow> fold f (take (Suc i) xs) st = f (xs ! i) (fold f (take i xs) st)"
  by (simp add: take_Suc_conv_app_nth)

lemma scrape_url_prefix: "prefix (fst st) (fst (scrape_url e n week url st))"
proof -
  obtain dc w where st: "st = (dc, w)" by (cases st)
  from scrape_url_cases [of e n week url dc w] show ?thesis
    unfolding st by (auto simp: prefix_def)
qed

lemma fold_scrape_url_prefix:
  "prefix (fst st) (fst (fold (scrape_url e n week) urls st))"
proof (induction urls arbitrary: st)
  case Nil
  show ?case by simp
next
  case (Cons u us)
  have "prefix (fst st) (fst (scrape_url e n week u st))" by (rule scrape_url_prefix)
  also have "prefix \<dots> (fst (fold (scrape_url e n week) us (scrape_url e n week u st)))"
    by (rule Cons.IH)
  finally show ?case by simp
qed

lemma fold_take_prefix:
  "j \<le> length urls \<Longrightarrow>
   prefix (fst (fold (scrape_url e n week) (take j urls) st)) (fst (fold (scrape_url e n week) urls st))"
proof -
  have "fold (scrape_url e n week) urls st =
        fold (scrape_url e n week) (drop j urls) (fold (scrape_url e n week) (take j urls) st)"
    by (metis append_take_drop_id fold_append comp_apply)
  then show ?thesis by (simp add: fold_scrape_url_prefix)
qed

lemma fold_take_mono:
  assumes "i \<le> j" and "j \<le> length urls"
  shows "prefix (fst (fold (scrape_url e n week) (take i urls) st))
           (fst (fold (scrape_url e n week) (take j urls) st))"
proof -
  have "i \<le> length (take j urls)" using assms by simp
  from fold_take_prefix [OF this, of e n week st]
  have "prefix (fst (fold (scrape_url e n week) (take i (take j urls)) st))
          (fst (fold (scrape_url e n week) (take j urls) st))" .
  moreover have "take i (take j urls) = take i urls" using assms by (simp add: min_def)
  ultimately show ?thesis by simp
qed

lemma after_urls_0: "after_urls e n week urls st 0 = st"
  by (simp add: after_urls_def)

lemma after_urls_all: "after_urls e n week urls st (length urls) = fold (scrape_url e n week) urls st"
  by (simp add: after_urls_def)

lemma after_urls_Suc:
  "k < length urls \<Longrightarrow>
   after_urls e n week urls st (Suc k) = scrape_url e n week (urls ! k) (after_urls e n week urls st k)"
  by (simp add: after_urls_def fold_take_Suc)

lemma after_urls_mono:
  "i \<le> j \<Longrightarrow> j \<le> length urls \<Longrightarrow>
   prefix (fst (after_urls e n week urls st i)) (fst (after_urls e n week urls st j))"
  by (simp add: after_urls_def fold_take_mono)

lemma after_urls_step:
  "k < length urls \<Longrightarrow>
   fst (after_urls e n week urls st (Suc k)) =
     fst (after_urls e n week urls st k) @ rows_of_round e n week urls st k"
proof -
  assume "k < length urls"
  then have "prefix (fst (after_urls e n week urls st k)) (fst (after_urls e n week urls st (Suc k)))"
    by (intro after_urls_mono) auto
  then show ?thesis by (auto simp: rows_of_round_def prefix_def)
qed

lemma rows_of_round_cases:
  assumes "k < length urls"
  shows "\<exists>stored. length stored = 3 \<and>
     (rows_of_round e n week urls st k =
        [posting_row e n week (urls ! k) (fst (after_urls e n week urls st k))
           (snd (after_urls e n week urls st k)) @ stored] \<or>
      rows_of_round e n week urls st k =
        [posting_row e n week (urls ! k) (fst (after_urls e n week urls st k))
           (snd (after_urls e n week urls st k)) @ stored,
         posting_row e n week (urls ! k) (fst (after_urls e n week urls st k))
           (snd (after_urls e n week urls st k)) @ stored])"
proof -
  obtain dc w where a: "after_urls e n week urls st k = (dc, w)"
    by (cases "after_urls e n week urls st k")
  from scrape_url_cases [of e n week "urls ! k" dc w] show ?thesis
    by (auto simp: rows_of_round_def after_urls_Suc [OF assms] a)
qed

lemma rows_of_round_exhausted:
  assumes "k < length urls"
    and "all_attempts_fail e (urls ! k) ntries (snd (after_urls e n week urls st k))"
  shows "rows_of_round e n week urls st k =
        [posting_row e n week (urls ! k) (fst (after_urls e n week urls st k))
           (snd (after_urls e n week urls st k)) @ [FAILURE, FAILURE, FAILURE],
         posting_row e n week (urls ! k) (fst (after_urls e n week urls st k))
           (snd (after_urls e n week urls st k)) @ [FAILURE, FAILURE, FAILURE]]"
proof -
  obtain dc w where a: "after_urls e n week urls st k = (dc, w)"
    by (cases "after_urls e n week urls st k")
  from assms(2) have "all_attempts_fail e (urls ! k) ntries w" by (simp add: a)
  from scrape_url_exhausted [OF this, of n week dc] show ?thesis
    by (auto simp: rows_of_round_def after_urls_Suc [OF assms(1)] a)
qed

lemma after_urls_concat:
  "k \<le> length urls \<Longrightarrow>
   fst (after_urls e n week urls st k) = fst st @ concat (map (rows_of_round e n week urls st) [0..<k])"
proof (induction k)
  case 0
  show ?case by (simp add: after_urls_0)
next
  case (Suc k)
  then show ?case by (simp add: after_urls_step)
qed

lemma scrape_messages_one_week:
  "urls \<noteq> [] \<Longrightarrow>
   scrape_messages e n [(week, urls)] url_var dc w =
     (Inr (fst (after_urls e n week urls (dc, w) (length urls))),
      snd (after_urls e n week urls (dc, w) (length urls)))"
  by (simp add: after_urls_all split: prod.splits)

lemma rows_of_round_id:
  assumes "k < length urls" and "x \<in> set (rows_of_round e n week urls st k)"
  shows "x ! 0 = PInt (int n + int (length (fst (after_urls e n week urls st k))) + 1)
       \<and> x ! 1 = PStr week \<and> x ! 2 = PStr (urls ! k) \<and> length x = 7"
  using rows_of_round_cases [OF assms(1), of e n week st] assms(2)
  by (auto simp: posting_row_def)

lemma rows_of_round_length:
  assumes "k < length urls"
  shows "0 < length (rows_of_round e n week urls st k)"
  using rows_of_round_cases [OF assms(1), of e n week st] by auto

lemma after_urls_length_mono:
  "i \<le> j \<Longrightarrow> j \<le> length urls \<Longrightarrow>
   length (fst (after_urls e n week urls st i)) \<le> length (fst (after_urls e n week urls st j))"
  using after_urls_mono [of i j urls e n week st] by (auto simp: prefix_def)

lemma after_urls_length_Suc:
  "k < length urls \<Longrightarrow>
   length (fst (after_urls e n week urls st k)) < length (fst (after_urls e n week urls st (Suc k)))"
  using rows_of_round_length [of k urls e n week st] by (simp add: after_urls_step)

lemma rows_of_round_bounds:
  assumes "k < length urls" and "x \<in> set (rows_of_round e n week urls st k)"
  shows "\<exists>i. x ! 0 = PInt i \<and> x ! 1 = PStr week \<and> x ! 2 = PStr (urls ! k)
            \<and> int n + int (length (fst (after_urls e n week urls st k))) < i
            \<and> i \<le> int n + int (length (fst (after_urls e n week urls st (Suc k))))"
  using rows_of_round_id [OF assms] after_urls_length_Suc [OF assms(1), of e n week st] by simp

lemma fold_rows_bounds:
  assumes "x \<in> set (drop (length (fst st)) (fst (fold (scrape_url e n week) urls st)))"
  shows "\<exists>i. x ! 0 = PInt i \<and> x ! 1 = PStr week
            \<and> int n + int (length (fst st)) < i
            \<and> i \<le> int n + int (length (fst (fold (scrape_url e n week) urls st)))"
proof -
  have "fst (fold (scrape_url e n week) urls st) =
          fst st @ concat (map (rows_of_round e n week urls st) [0..<length urls])"
    using after_urls_concat [of "length urls" urls e n week st] by (simp add: after_urls_all)
  with assms obtain k where k: "k < length urls" and x: "x \<in> set (rows_of_round e n week urls st k)"
    by auto
  from rows_of_round_bounds [OF k x] obtain i where
    i: "x ! 0 = PInt i" "x ! 1 = PStr week"
       "int n + int (length (fst (after_urls e n week urls st k))) < i"
       "i \<le> int n + int (length (fst (after_urls e n week urls st (Suc k))))" by blast
  have "length (fst st) \<le> length (fst (after_urls e n week urls st k))"
    using after_urls_length_mono [of 0 k urls e n week st] k by (simp add: after_urls_0)
  moreover have "length (fst (after_urls e n week urls st (Suc k)))
      \<le> length (fst (fold (scrape_url e n week) urls st))"
    using after_urls_length_mono [of "Suc k" "length urls" urls e n week st] k
    by (simp add: after_urls_all)
  ultimately show ?thesis using i by auto
qed

lemma rows_of_round_order:
  assumes "i < j" and "j < length urls"
    and "a \<in> set (rows_of_round e n week urls st i)"
    and "b \<in> set (rows_of_round e n week urls st j)"
  shows "\<exists>x y. a ! 0 = PInt x \<and> b ! 0 = PInt y \<and> x < y
             \<and> a ! 2 = PStr (urls ! i) \<and> b ! 2 = PStr (urls ! j)"
proof -
  from assms have il: "i < length urls" by simp
  from rows_of_round_bounds [OF il assms(3)] obtain x where
    x: "a ! 0 = PInt x" "a ! 2 = PStr (urls ! i)"
       "x \<le> int n + int (length (fst (after_urls e n week urls st (Suc i))))" by blast
  from rows_of_round_bounds [OF assms(2) assms(4)] obtain y where
    y: "b ! 0 = PInt y" "b ! 2 = PStr (urls ! j)"
       "int n + int (length (fst (after_urls e n week urls st j))) < y" by blast
  have "length (fst (after_urls e n week urls st (Suc i))) \<le> length (fst (after_urls e n week urls st j))"
    using after_urls_length_mono [of "Suc i" j urls e n week st] assms(1,2) by simp
  with x y show ?thesis by auto
qed

lemma example_p1_fails: "all_attempts_fail example_env ''https://a/p1'' ntries []"
  by code_simp

lemma example_env_now: "env_now example_env w = ''2024-08-19 06:00:00''"
  by (simp add: example_env_def)

lemma second_retry_block_first_success:
  "second_retry_block e url (Suc r) dp dc w =
     (case first_success e url (Suc r) w of
        (Some stored, w') \<Rightarrow> (dp @ stored, dc, w')
      | (None, w') \<Rightarrow>
          (dp @ [FAILURE, FAILURE, FAILURE], dc @ [dp @ [FAILURE, FAILURE, FAILURE]], w'))"
proof (induction r arbitrary: w)
  case 0
  show ?case by (simp split: prod.splits sum.splits)
next
  case (Suc r)
  show ?case
  proof (cases "attempt_posting e w url")
    case (Pair res w1)
    show ?thesis
    proof (cases res)
      case (Inl x)
      with Pair Suc.IH [of w1] show ?thesis
        by (simp del: second_retry_block.simps(2) first_success.simps(2)
            add: second_retry_block.simps(2) [of e url "Suc r" dp dc w]
                 first_success.simps(2) [of e url "Suc r" w])
    next
      case (Inr stored)
      with Pair show ?thesis by simp
    qed
  qed
qed

lemma scrape_url_first_success:
  "scrape_url e n week url (dc, w) =
     (case first_success e url ntries w of
        (Some stored, w') \<Rightarrow> (dc @ [posting_row e n week url dc w @ stored], w')
      | (None, w') \<Rightarrow>
          (dc @ replicate 2 (posting_row e n week url dc w @ [FAILURE, FAILURE, FAILURE]), w'))"
  unfolding scrape_url_def ntries_Suc second_retry_block_first_success
  by (simp add: posting_row_def numeral_2_eq_2 split: prod.splits option.splits)

lemma visit_world: "\<exists>evs. snd (visit e w url) = w @ Get url # evs"
  by (auto simp: visit_def split: option.splits)

lemma message_tier_world: "\<exists>evs. snd (message_tier flt e w s) = w @ evs"
proof (cases "soup_find flt s")
  case None
  then show ?thesis by (simp add: message_tier_def)
next
  case (Some a)
  from visit_world [of e w "url_base @ the (a_href a)"] obtain evs where
    "snd (visit e w (url_base @ the (a_href a))) = w @ Get (url_base @ the (a_href a)) # evs" by blast
  with Some show ?thesis
    by (cases "visit e w (url_base @ the (a_href a))")
       (auto simp: message_tier_def split: sum.splits option.splits)
qed

lemma message_lookup_world: "\<exists>evs. snd (message_lookup e w s) = w @ evs"
proof (cases "plain_tier e w s")
  case (Pair res w1)
  from message_tier_world [of contains_plain_text e w s] Pair obtain evs1 where
    w1: "w1 = w @ evs1" by (auto simp: plain_tier_def)
  show ?thesis
  proof (cases res)
    case (Inr stored)
    with Pair w1 show ?thesis by (simp add: message_lookup_def)
  next
    case (Inl x)
    from message_tier_world [of contains_html e w1 s] obtain evs2 where
      "snd (html_tier e w1 s) = w1 @ evs2" by (auto simp: html_tier_def)
    with Pair Inl w1 show ?thesis by (simp add: message_lookup_def)
  qed
qed

lemma attempt_posting_world: "\<exists>evs. snd (attempt_posting e w url) = w @ Get url # evs"
proof (cases "visit e w url")
  case (Pair res w1)
  from visit_world [of e w url] Pair obtain evs1 where w1: "w1 = w @ Get url # evs1" by auto
  show ?thesis
  proof (cases res)
    case (Inl x)
    with Pair w1 show ?thesis by (simp add: attempt_posting_def)
  next
    case (Inr src)
    from message_lookup_world [of e w1 "env_parse e src"] obtain evs2 where
      "snd (message_lookup e w1 (env_parse e src)) = w1 @ evs2" by blast
    with Pair Inr w1 show ?thesis by (simp add: attempt_posting_def)
  qed
qed

lemma first_success_extends: "\<exists>evs. snd (first_success e url r w) = w @ evs"
proof (induction r arbitrary: w)
  case 0
  show ?case by simp
next
  case (Suc r)
  obtain res w1 where a: "attempt_posting e w url = (res, w1)" by (cases "attempt_posting e w url")
  with attempt_posting_world [of e w url] obtain evs1 where w1: "w1 = w @ Get url # evs1" by auto
  show ?case
  proof (cases res)
    case (Inr stored)
    with a w1 show ?thesis by simp
  next
    case (Inl x)
    from Suc.IH [of w1] obtain evs2 where "snd (first_success e url r w1) = w1 @ evs2" by blast
    with a Inl w1 show ?thesis by simp
  qed
qed

lemma first_success_world:
  "\<exists>evs. snd (first_success e url (Suc r) w) = w @ Get url # evs"
proof -
  obtain res w1 where a: "attempt_posting e w url = (res, w1)" by (cases "attempt_posting e w url")
  with attempt_posting_world [of e w url] obtain evs1 where w1: "w1 = w @ Get url # evs1" by auto
  show ?thesis
  proof (cases res)
    case (Inr stored)
    with a w1 show ?thesis by simp
  next
    case (Inl x)
    from first_success_extends [of e url r w1] obtain evs2 where
      "snd (first_success e url r w1) = w1 @ evs2" by blast
    with a Inl w1 show ?thesis by simp
  qed
qed

lemma after_urls_round:
  assumes "j < length urls"
  shows "after_urls e n week urls st (Suc j) =
     (case first_success e (urls ! j) ntries (snd (after_urls e n week urls st j)) of
        (Some stored, w') \<Rightarrow>
          (fst (after_urls e n week urls st j) @
             [posting_row e n week (urls ! j) (fst (after_urls e n week urls st j))
                (snd (after_urls e n week urls st j)) @ stored], w')
      | (None, w') \<Rightarrow>
          (fst (after_urls e n week urls st j) @
             replicate 2
               (posting_row e n week (urls ! j) (fst (after_urls e n week urls st j))
                  (snd (after_urls e n week urls st j)) @ [FAILURE, FAILURE, FAILURE]), w'))"
proof -
  obtain dc w where a: "after_urls e n week urls st j = (dc, w)"
    by (cases "after_urls e n week urls st j")
  show ?thesis
    unfolding after_urls_Suc [OF assms] a
    by (simp add: scrape_url_first_success split: prod.splits option.splits)
qed

lemma after_urls_fetches:
  assumes "j < length urls"
  shows "\<exists>evs. snd (after_urls e n week urls st (Suc j)) =
           snd (after_urls e n week urls st j) @ Get (urls ! j) # evs"
proof -
  from first_success_world [of e "urls ! j" 14 "snd (after_urls e n week urls st j)"]
  obtain evs where "snd (first_success e (urls ! j) ntries (snd (after_urls e n week urls st j))) =
      snd (after_urls e n week urls st j) @ Get (urls ! j) # evs"
    by (auto simp: ntries_Suc)
  then show ?thesis
    unfolding after_urls_round [OF assms]
    by (auto split: prod.splits option.splits)
qed

text \<open>
  C2. When every attempt on the posting \<open>urls ! i\<close> of a week raises, the week is still
  scraped to its end without raising: the rows of the week are the rows of every round
  in order, round \<open>i\<close> appended a row whose salary flag, source code and text are all
  the FAILURE sentinel (it appended that row twice), and every later URL of the week got
  its rows. Every round of the loop, the later ones among them, goes to its URL in the
  world the round before left, makes its attempts there, and appends what the first
  attempt that does not raise has stored (or the FAILURE row, twice, when each raises).
\<close>

theorem failure_containment:
  assumes "i < length urls"
    and "all_attempts_fail e (urls ! i) ntries (snd (after_urls e n week urls (dc, w) i))"
  shows "scrape_messages e n [(week, urls)] url_var dc w =
           (Inr (dc @ concat (map (rows_of_round e n week urls (dc, w)) [0..<length urls])),
            snd (after_urls e n week urls (dc, w) (length urls)))
       \<and> rows_of_round e n week urls (dc, w) i =
           replicate 2
             [PInt (int n + int (length (fst (after_urls e n week urls (dc, w) i))) + 1),
              PStr week, PStr (urls ! i), PStr (env_now e (snd (after_urls e n week urls (dc, w) i))),
              FAILURE, FAILURE, FAILURE]
       \<and> (\<forall>j. i < j \<and> j < length urls \<longrightarrow>
              rows_of_round e n week urls (dc, w) j \<noteq> [] \<and>
              (\<forall>x \<in> set (rows_of_round e n week urls (dc, w) j). x ! 2 = PStr (urls ! j)))
       \<and> (\<forall>j. j < length urls \<longrightarrow>
              after_urls e n week urls (dc, w) (Suc j) =
                (case first_success e (urls ! j) ntries (snd (after_urls e n week urls (dc, w) j)) of
                   (Some stored, w') \<Rightarrow>
                     (fst (after_urls e n week urls (dc, w) j) @
                        [posting_row e n week (urls ! j) (fst (after_urls e n week urls (dc, w) j))
                           (snd (after_urls e n week urls (dc, w) j)) @ stored], w')
                 | (None, w') \<Rightarrow>
                     (fst (after_urls e n week urls (dc, w) j) @
                        replicate 2
                          (posting_row e n week (urls ! j) (fst (after_urls e n week urls (dc, w) j))
                             (snd (after_urls e n week urls (dc, w) j)) @ [FAILURE, FAILURE, FAILURE]),
                      w'))
              \<and> (\<exists>evs. snd (after_urls e n week urls (dc, w) (Suc j)) =
                    snd (after_urls e n week urls (dc, w) j) @ Get (urls ! j) # evs))
       \<and> after_urls e n week urls (dc, w) 0 = (dc, w)"
proof -
  from assms(1) have ne: "urls \<noteq> []" by auto
  have run: "scrape_messages e n [(week, urls)] url_var dc w =
           (Inr (dc @ concat (map (rows_of_round e n week urls (dc, w)) [0..<length urls])),
            snd (after_urls e n week urls (dc, w) (length urls)))"
    using scrape_messages_one_week [OF ne, of e n week url_var dc w]
      after_urls_concat [of "length urls" urls e n week "(dc, w)"]
    by simp
  have twice: "rows_of_round e n week urls (dc, w) i =
           replicate 2
             [PInt (int n + int (length (fst (after_urls e n week urls (dc, w) i))) + 1),
              PStr week, PStr (urls ! i), PStr (env_now e (snd (after_urls e n week urls (dc, w) i))),
              FAILURE, FAILURE, FAILURE]"
    using rows_of_round_exhausted [OF assms]
    by (simp add: posting_row_def numeral_2_eq_2)
  have later: "rows_of_round e n week urls (dc, w) j \<noteq> [] \<and>
      (\<forall>x \<in> set (rows_of_round e n week urls (dc, w) j). x ! 2 = PStr (urls ! j))"
    if j: "i < j \<and> j < length urls" for j
  proof -
    from j have jl: "j < length urls" by simp
    from rows_of_round_length [OF jl, of e n week "(dc, w)"]
    have "rows_of_round e n week urls (dc, w) j \<noteq> []" by auto
    moreover have "x ! 2 = PStr (urls ! j)" if "x \<in> set (rows_of_round e n week urls (dc, w) j)" for x
      using rows_of_round_id [OF jl that] by simp
    ultimately show ?thesis by blast
  qed
  have rounds: "after_urls e n week urls (dc, w) (Suc j) =
                (case first_success e (urls ! j) ntries (snd (after_urls e n week urls (dc, w) j)) of
                   (Some stored, w') \<Rightarrow>
                     (fst (after_urls e n week urls (dc, w) j) @
                        [posting_row e n week (urls ! j) (fst (after_urls e n week urls (dc, w) j))
                           (snd (after_urls e n week urls (dc, w) j)) @ stored], w')
                 | (None, w') \<Rightarrow>
                     (fst (after_urls e n week urls (dc, w) j) @
                        replicate 2
                          (posting_row e n week (urls ! j) (fst (after_urls e n week urls (dc, w) j))
                             (snd (after_urls e n week urls (dc, w) j)) @ [FAILURE, FAILURE, FAILURE]),
                      w'))
              \<and> (\<exists>evs. snd (after_urls e n week urls (dc, w) (Suc j)) =
                    snd (after_urls e n week urls (dc, w) j) @ Get (urls ! j) # evs)"
    if j: "j < length urls" for j
    using after_urls_round [OF j, of e n week "(dc, w)"] after_urls_fetches [OF j, of e n week "(dc, w)"]
    by blast
  from run twice later rounds after_urls_0 [of e n week urls "(dc, w)"] show ?thesis by blast
qed

lemma example_after_p1:
  "after_urls example_env 3 ''W3'' [''https://a/p1'', ''https://a/p2''] ([], []) 1 =
     ([[PInt 4, PStr ''W3'', PStr ''https://a/p1'', PStr ''2024-08-19 06:00:00'',
        PStr ''FAILURE'', PStr ''FAILURE'', PStr ''FAILURE''],
       [PInt 4, PStr ''W3'', PStr ''https://a/p1'', PStr ''2024-08-19 06:00:00'',
        PStr ''FAILURE'', PStr ''FAILURE'', PStr ''FAILURE'']],
      replicate 15 (Get ''https://a/p1''))"
  by code_simp

lemma example_p2_succeeds:
  "first_success example_env ([''https://a/p1'', ''https://a/p2''] ! 1) ntries
       (replicate 15 (Get ''https://a/p1'')) =
     (Some [PBool False, PStr ''https://listserv.kent.edu/m2'', PStr ''see http://x.y''],
      replicate 15 (Get ''https://a/p1'') @ [Get ''https://a/p2'', Get ''https://listserv.kent.edu/m2''])"
  by code_simp

lemma example_p2_row:
  "[[PInt 4, PStr ''W3'', PStr ''https://a/p1'', PStr ''2024-08-19 06:00:00'',
        PStr ''FAILURE'', PStr ''FAILURE'', PStr ''FAILURE''],
       [PInt 4, PStr ''W3'', PStr ''https://a/p1'', PStr ''2024-08-19 06:00:00'',
        PStr ''FAILURE'', PStr ''FAILURE'', PStr ''FAILURE'']] @
   [posting_row example_env 3 ''W3'' ([''https://a/p1'', ''https://a/p2''] ! 1)
      [[PInt 4, PStr ''W3'', PStr ''https://a/p1'', PStr ''2024-08-19 06:00:00'',
        PStr ''FAILURE'', PStr ''FAILURE'', PStr ''FAILURE''],
       [PInt 4, PStr ''W3'', PStr ''https://a/p1'', PStr ''2024-08-19 06:00:00'',
        PStr ''FAILURE'', PStr ''FAILURE'', PStr ''FAILURE'']]
      (replicate 15 (Get ''https://a/p1''))
    @ [PBool False, PStr ''https://listserv.kent.edu/m2'', PStr ''see http://x.y'']]
   = [[PInt 4, PStr ''W3'', PStr ''https://a/p1'', PStr ''2024-08-19 06:00:00'',
        PStr ''FAILURE'', PStr ''FAILURE'', PStr ''FAILURE''],
      [PInt 4, PStr ''W3'', PStr ''https://a/p1'', PStr ''2024-08-19 06:00:00'',
        PStr ''FAILURE'', PStr ''FAILURE'', PStr ''FAILURE''],
      [PInt 6, PStr ''W3'', PStr ''https://a/p2'', PStr ''2024-08-19 06:00:00'',
         PBool False, PStr ''https://listserv.kent.edu/m2'', PStr ''see http://x.y'']]"
  by code_simp

theorem failure_containment_witness:
  "all_attempts_fail example_env ''https://a/p1'' ntries []
   \<and> rows_of_round example_env 3 ''W3'' [''https://a/p1'', ''https://a/p2''] ([], []) 0 =
       [[PInt 4, PStr ''W3'', PStr ''https://a/p1'', PStr ''2024-08-19 06:00:00'',
         PStr ''FAILURE'', PStr ''FAILURE'', PStr ''FAILURE''],
        [PInt 4, PStr ''W3'', PStr ''https://a/p1'', PStr ''2024-08-19 06:00:00'',
         PStr ''FAILURE'', PStr ''FAILURE'', PStr ''FAILURE'']]
   \<and> rows_of_round example_env 3 ''W3'' [''https://a/p1'', ''https://a/p2''] ([], []) 1 =
       [[PInt 6, PStr ''W3'', PStr ''https://a/p2'', PStr ''2024-08-19 06:00:00'',
         PBool False, PStr ''https://listserv.kent.edu/m2'', PStr ''see http://x.y'']]
   \<and> fst (scrape_messages example_env 3 [(''W3'', [''https://a/p1'', ''https://a/p2''])] None [] []) =
       Inr (concat (map (rows_of_round example_env 3 ''W3'' [''https://a/p1'', ''https://a/p2''] ([], []))
              [0, 1]))
   \<and> first_success example_env ([''https://a/p1'', ''https://a/p2''] ! 1) ntries
       (replicate 15 (Get ''https://a/p1'')) =
     (Some [PBool False, PStr ''https://listserv.kent.edu/m2'', PStr ''see http://x.y''],
      replicate 15 (Get ''https://a/p1'') @ [Get ''https://a/p2'', Get ''https://listserv.kent.edu/m2''])
   \<and> after_urls example_env 3 ''W3'' [''https://a/p1'', ''https://a/p2''] ([], []) (Suc 1) =
       ([[PInt 4, PStr ''W3'', PStr ''https://a/p1'', PStr ''2024-08-19 06:00:00'',
          PStr ''FAILURE'', PStr ''FAILURE'', PStr ''FAILURE''],
         [PInt 4, PStr ''W3'', PStr ''https://a/p1'', PStr ''2024-08-19 06:00:00'',
          PStr ''FAILURE'', PStr ''FAILURE'', PStr ''FAILURE''],
         [PInt 6, PStr ''W3'', PStr ''https://a/p2'', PStr ''2024-08-19 06:00:00'',
          PBool False, PStr ''https://listserv.kent.edu/m2'', PStr ''see http://x.y'']],
        replicate 15 (Get ''https://a/p1'') @ [Get ''https://a/p2'', Get ''https://listserv.kent.edu/m2''])"
proof -
  let ?us = "[''https://a/p1'', ''https://a/p2'']"
  have h1: "0 < length ?us" by simp
  have h2: "all_attempts_fail example_env (?us ! 0) ntries
              (snd (after_urls example_env 3 ''W3'' ?us ([], []) 0))"
    by (simp add: after_urls_0 example_p1_fails)
  note c = failure_containment [OF h1 h2, of None]
  from c have "rows_of_round example_env 3 ''W3'' ?us ([], []) 0 =
      replicate 2
        [PInt (int 3 + int (length (fst (after_urls example_env 3 ''W3'' ?us ([], []) 0))) + 1),
         PStr ''W3'', PStr (?us ! 0),
         PStr (env_now example_env (snd (after_urls example_env 3 ''W3'' ?us ([], []) 0))),
         FAILURE, FAILURE, FAILURE]"
    by blast
  then have twice: "rows_of_round example_env 3 ''W3'' ?us ([], []) 0 =
       [[PInt 4, PStr ''W3'', PStr ''https://a/p1'', PStr ''2024-08-19 06:00:00'',
         PStr ''FAILURE'', PStr ''FAILURE'', PStr ''FAILURE''],
        [PInt 4, PStr ''W3'', PStr ''https://a/p1'', PStr ''2024-08-19 06:00:00'',
         PStr ''FAILURE'', PStr ''FAILURE'', PStr ''FAILURE'']]"
    by (simp add: after_urls_0 example_env_now FAILURE_def numeral_2_eq_2)
  from c have "scrape_messages example_env 3 [(''W3'', ?us)] None [] [] =
      (Inr ([] @ concat (map (rows_of_round example_env 3 ''W3'' ?us ([], [])) [0..<length ?us])),
       snd (after_urls example_env 3 ''W3'' ?us ([], []) (length ?us)))"
    by blast
  then have "fst (scrape_messages example_env 3 [(''W3'', ?us)] None [] []) =
      Inr ([] @ concat (map (rows_of_round example_env 3 ''W3'' ?us ([], [])) [0..<length ?us]))"
    by (simp only: fst_conv)
  moreover have "[0..<length ?us] = [0, 1]" by (simp add: upt_rec)
  ultimately have all: "fst (scrape_messages example_env 3 [(''W3'', ?us)] None [] []) =
      Inr (concat (map (rows_of_round example_env 3 ''W3'' ?us ([], [])) [0, 1]))"
    by (simp only: append_Nil)
  have later: "rows_of_round example_env 3 ''W3'' ?us ([], []) 1 =
       [[PInt 6, PStr ''W3'', PStr ''https://a/p2'', PStr ''2024-08-19 06:00:00'',
         PBool False, PStr ''https://listserv.kent.edu/m2'', PStr ''see http://x.y'']]"
    by code_simp
  have "1 < length ?us" by simp
  with c have "after_urls example_env 3 ''W3'' ?us ([], []) (Suc 1) =
      (case first_success example_env (?us ! 1) ntries (snd (after_urls example_env 3 ''W3'' ?us ([], []) 1)) of
         (Some stored, w') \<Rightarrow>
           (fst (after_urls example_env 3 ''W3'' ?us ([], []) 1) @
              [posting_row example_env 3 ''W3'' (?us ! 1) (fst (after_urls example_env 3 ''W3'' ?us ([], []) 1))
                 (snd (after_urls example_env 3 ''W3'' ?us ([], []) 1)) @ stored], w')
       | (None, w') \<Rightarrow>
           (fst (after_urls example_env 3 ''W3'' ?us ([], []) 1) @
              replicate 2
                (posting_row example_env 3 ''W3'' (?us ! 1) (fst (after_urls example_env 3 ''W3'' ?us ([], []) 1))
                   (snd (after_urls example_env 3 ''W3'' ?us ([], []) 1)) @ [FAILURE, FAILURE, FAILURE]),
            w'))"
    by blast
  then have round: "after_urls example_env 3 ''W3'' ?us ([], []) (Suc 1) =
       ([[PInt 4, PStr ''W3'', PStr ''https://a/p1'', PStr ''2024-08-19 06:00:00'',
          PStr ''FAILURE'', PStr ''FAILURE'', PStr ''FAILURE''],
         [PInt 4, PStr ''W3'', PStr ''https://a/p1'', PStr ''2024-08-19 06:00:00'',
          PStr ''FAILURE'', PStr ''FAILURE'', PStr ''FAILURE''],
         [PInt 6, PStr ''W3'', PStr ''https://a/p2'', PStr ''2024-08-19 06:00:00'',
          PBool False, PStr ''https://listserv.kent.edu/m2'', PStr ''see http://x.y'']],
        replicate 15 (Get ''https://a/p1'') @ [Get ''https://a/p2'', Get ''https://listserv.kent.edu/m2''])"
    by (simp only: example_after_p1 fst_conv snd_conv example_p2_succeeds prod.case option.case
        example_p2_row)
  from example_p1_fails twice later all example_p2_succeeds round show ?thesis by blast
qed

subsection \<open>The filter of the posting URLs\<close>

lemma starts_with_prefix: "starts_with p s = prefix p s"
  by (induction p s rule: starts_with.induct) auto

lemma str_in_sublist: "str_in sub s = sublist sub s"
  by (induction s) (auto simp: starts_with_prefix sublist_Cons_right)

lemma contains_posting_iff:
  "contains_posting x = (\<exists>t. x = Some t \<and> (\<exists>k \<in> set posting_words. sublist k (lower t)))"
  by (cases x) (auto simp: contains_posting_def posting_words_def str_in_sublist lower_def)

lemma map_filter_as_filter:
  "List.map_filter (\<lambda>a. case a_href a of None \<Rightarrow> None | Some h \<Rightarrow> if P a h then Some h else None) xs
     = map (the \<circ> a_href) (filter (\<lambda>a. \<exists>h. a_href a = Some h \<and> P a h) xs)"
  by (induction xs) (auto split: option.splits)

text \<open>
  C4, as amended. The hrefs collected from a compilation page are, in document order,
  those of the anchors that have an href, whose string contains one of the four words
  whatever the case of its letters, and whose href contains \<open>https\<close> somewhere. The
  href need not start with it.
\<close>

theorem posting_urls_filter:
  "posting_urls s =
     map (the \<circ> a_href)
       (filter (\<lambda>a. \<exists>h t. a_href a = Some h \<and> a_string a = Some t
                        \<and> (\<exists>k \<in> set posting_words. sublist k (lower t)) \<and> sublist ''https'' h)
          (soup_a s))"
proof -
  have "filter (\<lambda>a. \<exists>h. a_href a = Some h \<and> (contains_posting (a_string a) \<and> str_in ''https'' h))
          (soup_a s)
      = filter (\<lambda>a. \<exists>h t. a_href a = Some h \<and> a_string a = Some t
                        \<and> (\<exists>k \<in> set posting_words. sublist k (lower t)) \<and> sublist ''https'' h)
          (soup_a s)"
    by (rule filter_cong) (auto simp: contains_posting_iff str_in_sublist)
  then show ?thesis
    unfolding posting_urls_def map_filter_as_filter by (rule arg_cong)
qed

theorem posting_urls_filter_witness:
  "posting_urls example_compilation = [''https://x.edu/job'', ''http://insecure.example/https'']
   \<and> map (the \<circ> a_href)
       (filter (\<lambda>a. \<exists>h t. a_href a = Some h \<and> a_string a = Some t
                        \<and> (\<exists>k \<in> set posting_words. sublist k (lower t)) \<and> sublist ''https'' h)
          (soup_a example_compilation)) = [''https://x.edu/job'', ''http://insecure.example/https'']"
proof -
  have "posting_urls example_compilation = [''https://x.edu/job'', ''http://insecure.example/https'']"
    by code_simp
  with posting_urls_filter [of example_compilation] show ?thesis by simp
qed

text \<open>
  C4, counterexample. An anchor whose text matches and whose href is not an https URL is
  collected all the same when \<open>https\<close> occurs later in the href.
\<close>

theorem non_https_href_collected:
  "posting_urls \<lparr>soup_h2 = [],
      soup_a = [\<lparr>a_string = Some ''Lecturer Position'', a_href = Some ''http://insecure.example/https''\<rparr>]\<rparr>
     = [''http://insecure.example/https'']
   \<and> \<not> https_scheme ''http://insecure.example/https''"
  by code_simp

subsection \<open>The identifiers of the rows\<close>

text \<open>
  C1. The claim fails on a run in which a posting cannot be reached: the ledger has three
  rows, the week W3 is new, every attempt on its first posting raises. The row of that
  posting is appended twice (lines 602 and 606), both times with the identifier 4, and
  the row of the next posting gets the identifier 6. The rows of the embedded URLs are
  numbered from 8, one after the other.
\<close>

theorem failed_posting_twice:
  "fst (run example_env [''W1'', ''W2'', ''W2''] 7) =
     Inr ([[PInt 4, PStr ''W3'', PStr ''https://a/p1'', PStr ''2024-08-19 06:00:00'',
            PStr ''FAILURE'', PStr ''FAILURE'', PStr ''FAILURE''],
           [PInt 4, PStr ''W3'', PStr ''https://a/p1'', PStr ''2024-08-19 06:00:00'',
            PStr ''FAILURE'', PStr ''FAILURE'', PStr ''FAILURE''],
           [PInt 6, PStr ''W3'', PStr ''https://a/p2'', PStr ''2024-08-19 06:00:00'',
            PBool False, PStr ''https://listserv.kent.edu/m2'', PStr ''see http://x.y'']],
          [[PInt 6, PInt 8, PStr ''W3'', PStr ''https://a/p2'', PStr ''http://x.y'',
            PStr ''2024-08-19 06:00:00'', PBool False, PStr ''page'', PStr ''see http://x.y'']])"
  by code_simp

text \<open>The identifiers of the rows of the embedded URLs are contiguous in every run.\<close>

lemma scrape_url_in_message_rows:
  "scrape_url_in_message e n dp u out w = (Inr out', w') \<Longrightarrow>
   \<exists>r. out' = out @ [r] \<and> r ! 0 = dp ! 0 \<and> r ! 1 = PInt (int n + int (length out) + 1) \<and> r ! 4 = PStr u"
  by (auto simp: scrape_url_in_message_def split: if_splits prod.splits sum.splits option.splits)

lemma for_urls_in_message_ids:
  "for_urls_in_message e n dp us out w = (Inr out', w') \<Longrightarrow>
   \<exists>new. out' = out @ new \<and>
     map (\<lambda>r. r ! 1) new = map (\<lambda>k. PInt (int n + int k + 1)) [length out..<length out + length us]"
proof (induction us arbitrary: out w)
  case Nil
  then show ?case by simp
next
  case (Cons u us)
  from Cons.prems obtain out1 w1 where
    s: "scrape_url_in_message e n dp u out w = (Inr out1, w1)"
    and f: "for_urls_in_message e n dp us out1 w1 = (Inr out', w')"
    by (auto split: prod.splits sum.splits)
  from scrape_url_in_message_rows [OF s] obtain r where
    r: "out1 = out @ [r]" "r ! 1 = PInt (int n + int (length out) + 1)" by blast
  from Cons.IH [OF f] obtain new where
    n: "out' = out1 @ new"
       "map (\<lambda>r. r ! 1) new = map (\<lambda>k. PInt (int n + int k + 1)) [length out1..<length out1 + length us]"
    by blast
  have l: "length out1 = Suc (length out)" using r(1) by simp
  have u: "[length out..<length out + length (u # us)] =
      length out # [Suc (length out)..<Suc (length out) + length us]"
    by (simp add: upt_conv_Cons del: upt_Suc)
  have "out' = out @ (r # new)" using r(1) n(1) by simp
  moreover have "map (\<lambda>r. r ! 1) (r # new) =
      map (\<lambda>k. PInt (int n + int k + 1)) [length out..<length out + length (u # us)]"
    unfolding u using r(2) n(2) l by (simp del: upt_Suc)
  ultimately show ?case by blast
qed

lemma embedded_ids_contiguous:
  "scrape_urls_inside_messages e n dc out w = (Inr out', w') \<Longrightarrow>
   \<exists>new. out' = out @ new \<and>
     map (\<lambda>r. r ! 1) new = map (\<lambda>k. PInt (int n + int k + 1)) [length out..<length out']"
proof (induction dc arbitrary: out w)
  case Nil
  then show ?case by simp
next
  case (Cons dp dc)
  from Cons.prems obtain us out1 w1 where
    f: "for_urls_in_message e n dp us out w = (Inr out1, w1)"
    and s: "scrape_urls_inside_messages e n dc out1 w1 = (Inr out', w')"
    by (auto split: if_splits prod.splits sum.splits option.splits)
  from for_urls_in_message_ids [OF f] obtain new1 where
    n1: "out1 = out @ new1"
        "map (\<lambda>r. r ! 1) new1 = map (\<lambda>k. PInt (int n + int k + 1)) [length out..<length out + length us]"
    by blast
  from Cons.IH [OF s] obtain new2 where
    n2: "out' = out1 @ new2"
        "map (\<lambda>r. r ! 1) new2 = map (\<lambda>k. PInt (int n + int k + 1)) [length out1..<length out']"
    by blast
  from n1(2) have l1: "length new1 = length us" by (metis length_map length_upt add_diff_cancel_left')
  with n1(1) have lo: "length out1 = length out + length us" by simp
  have "length out1 \<le> length out'" using n2(1) by simp
  then have "[length out..<length out'] = [length out..<length out1] @ [length out1..<length out']"
    using lo by (metis le_add1 upt_add_eq_append le_Suc_ex)
  with n1 n2 lo show ?case by (intro exI [of _ "new1 @ new2"]) simp
qed

subsection \<open>The tiers of the message lookup\<close>

text \<open>
  C3, as amended. The HTML statements run whenever the plain text statements raise
  anything: the plain text link is absent, or going to the plain text message, logging
  in, extracting its text or checking the salary raises. What reaches the re-try block of
  the posting is what going to the posting raises and what the HTML statements raise.
\<close>

theorem tier_fallback:
  "message_lookup e w soup_posting =
     (case soup_find contains_plain_text soup_posting of
        None \<Rightarrow> html_tier e w soup_posting
      | Some a \<Rightarrow>
          (case visit e w (url_base @ the (a_href a)) of
             (Inl x, w') \<Rightarrow> html_tier e w' soup_posting
           | (Inr source_code_message, w') \<Rightarrow>
               (case env_extract_text e source_code_message of
                  None \<Rightarrow> html_tier e w' soup_posting
                | Some text \<Rightarrow>
                    (case env_check_salary e text of
                       None \<Rightarrow> html_tier e w' soup_posting
                     | Some salary_flag \<Rightarrow>
                         (Inr [salary_flag, PStr source_code_message, PStr text], w')))))
   \<and> (attempt_posting e w url = (Inl x, w'') \<longrightarrow>
        visit e w url = (Inl x, w'') \<or>
        (\<exists>source_code_posting w1 y w2.
           visit e w url = (Inr source_code_posting, w1) \<and>
           plain_tier e w1 (env_parse e source_code_posting) = (Inl y, w2) \<and>
           html_tier e w2 (env_parse e source_code_posting) = (Inl x, w'')))"
proof
  show "message_lookup e w soup_posting =
     (case soup_find contains_plain_text soup_posting of
        None \<Rightarrow> html_tier e w soup_posting
      | Some a \<Rightarrow>
          (case visit e w (url_base @ the (a_href a)) of
             (Inl x, w') \<Rightarrow> html_tier e w' soup_posting
           | (Inr source_code_message, w') \<Rightarrow>
               (case env_extract_text e source_code_message of
                  None \<Rightarrow> html_tier e w' soup_posting
                | Some text \<Rightarrow>
                    (case env_check_salary e text of
                       None \<Rightarrow> html_tier e w' soup_posting
                     | Some salary_flag \<Rightarrow>
                         (Inr [salary_flag, PStr source_code_message, PStr text], w')))))"
    by (simp add: message_lookup_def plain_tier_def message_tier_def
        split: option.splits prod.splits sum.splits)
next
  show "attempt_posting e w url = (Inl x, w'') \<longrightarrow>
        visit e w url = (Inl x, w'') \<or>
        (\<exists>source_code_posting w1 y w2.
           visit e w url = (Inr source_code_posting, w1) \<and>
           plain_tier e w1 (env_parse e source_code_posting) = (Inl y, w2) \<and>
           html_tier e w2 (env_parse e source_code_posting) = (Inl x, w''))"
    by (auto simp: attempt_posting_def message_lookup_def split: prod.splits sum.splits)
qed

lemma example_p3_link:
  "soup_find contains_plain_text (example_parse ''https://a/p3'') =
     Some \<lparr>a_string = Some ''text/plain'', a_href = Some ''/m3p''\<rparr>"
  by code_simp

lemma example_p3_plain_visit:
  "visit example_env [Get ''https://a/p3''] (url_base @ ''/m3p'') =
     (Inl Fault, [Get ''https://a/p3'', Get ''https://listserv.kent.edu/m3p''])"
  by code_simp

lemma example_p3_html:
  "html_tier example_env [Get ''https://a/p3'', Get ''https://listserv.kent.edu/m3p'']
       (example_parse ''https://a/p3'') =
     (Inr [PBool False, PStr ''https://listserv.kent.edu/m3h'', PStr ''see http://x.y''],
      [Get ''https://a/p3'', Get ''https://listserv.kent.edu/m3p'', Get ''https://listserv.kent.edu/m3h''])"
  by code_simp

theorem tier_fallback_witness:
  "soup_find contains_plain_text (example_parse ''https://a/p3'') =
     Some \<lparr>a_string = Some ''text/plain'', a_href = Some ''/m3p''\<rparr>
   \<and> visit example_env [Get ''https://a/p3''] (url_base @ ''/m3p'') =
     (Inl Fault, [Get ''https://a/p3'', Get ''https://listserv.kent.edu/m3p''])
   \<and> message_lookup example_env [Get ''https://a/p3''] (example_parse ''https://a/p3'') =
     (Inr [PBool False, PStr ''https://listserv.kent.edu/m3h'', PStr ''see http://x.y''],
      [Get ''https://a/p3'', Get ''https://listserv.kent.edu/m3p'', Get ''https://listserv.kent.edu/m3h''])"
proof -
  from tier_fallback [of example_env "[Get ''https://a/p3'']" "example_parse ''https://a/p3''"]
  have "message_lookup example_env [Get ''https://a/p3''] (example_parse ''https://a/p3'') =
      html_tier example_env [Get ''https://a/p3'', Get ''https://listserv.kent.edu/m3p'']
        (example_parse ''https://a/p3'')"
    by (simp add: example_p3_link example_p3_plain_visit)
  with example_p3_link example_p3_plain_visit example_p3_html show ?thesis by simp
qed

text \<open>
  C3, counterexample. The posting p3 has a plain text link. Going to the plain text
  message raises, and the same attempt goes on to the HTML message and stores it: the
  fault is taken by the fallback, not by the re-try block of the posting.
\<close>

theorem html_tier_after_fetch_fault:
  "soup_find contains_plain_text (example_parse ''https://a/p3'') =
     Some \<lparr>a_string = Some ''text/plain'', a_href = Some ''/m3p''\<rparr>
   \<and> attempt_posting example_env [] ''https://a/p3'' =
     (Inr [PBool False, PStr ''https://listserv.kent.edu/m3h'', PStr ''see http://x.y''],
      [Get ''https://a/p3'', Get ''https://listserv.kent.edu/m3p'', Get ''https://listserv.kent.edu/m3h''])"
  by code_simp

subsection \<open>Nothing new\<close>

lemma attempt_index_noop:
  assumes "env_archive e w = Some li_elements" and "3 \<le> length li_elements"
    and "li_text (li_elements ! 1) = l" and "li_text (li_elements ! 2) = p"
  shows "attempt_index e l p w = (Inl SystemExit, w @ [OpenArchive])"
  using assms by (simp add: attempt_index_def)

lemma attempt_index_unreachable:
  "env_archive e w = None \<Longrightarrow> attempt_index e l p w = (Inl Fault, w @ [OpenArchive])"
  by (simp add: attempt_index_def)

lemma first_retry_block_noop:
  assumes "k < remaining"
    and "\<forall>j<k. env_archive e (w @ replicate j OpenArchive) = None"
    and "env_archive e (w @ replicate k OpenArchive) = Some li_elements"
    and "3 \<le> length li_elements"
    and "li_text (li_elements ! 1) = l" and "li_text (li_elements ! 2) = p"
  shows "first_retry_block e l p remaining w = (Inl SystemExit, w @ replicate (Suc k) OpenArchive)"
  using assms(1-3)
proof (induction k arbitrary: remaining w)
  case 0
  then obtain r where r: "remaining = Suc r" by (cases remaining) auto
  from 0 have "env_archive e w = Some li_elements" by simp
  from attempt_index_noop [OF this assms(4-6)] show ?case by (simp add: r)
next
  case (Suc k)
  then obtain r where r: "remaining = Suc r" and kr: "k < r" by (cases remaining) auto
  from Suc.prems(2) have "env_archive e (w @ replicate 0 OpenArchive) = None" by blast
  then have first: "attempt_index e l p w = (Inl Fault, w @ [OpenArchive])"
    by (simp add: attempt_index_unreachable)
  have "\<forall>j<k. env_archive e ((w @ [OpenArchive]) @ replicate j OpenArchive) = None"
  proof (intro allI impI)
    fix j assume "j < k"
    then have "env_archive e (w @ replicate (Suc j) OpenArchive) = None" using Suc.prems(2) by auto
    then show "env_archive e ((w @ [OpenArchive]) @ replicate j OpenArchive) = None" by simp
  qed
  moreover have "env_archive e ((w @ [OpenArchive]) @ replicate k OpenArchive) = Some li_elements"
    using Suc.prems(3) by simp
  ultimately have "first_retry_block e l p r (w @ [OpenArchive]) =
      (Inl SystemExit, (w @ [OpenArchive]) @ replicate (Suc k) OpenArchive)"
    using Suc.IH [OF kr] by blast
  with first kr show ?case by (simp add: r)
qed

text \<open>
  C5. When, at the first attempt that opens the archive, the previous to latest label is
  the last week of the ledger and the one before it is the previous to last week of the
  ledger, the run ends with SystemExit (the exit of \<open>sys.exit()\<close>, status 0): no row
  of either list is handed on, and nothing but the archive has been opened, no
  compilation has been fetched.
\<close>

theorem noop_exit:
  assumes "weeks = rev (remdups (rev rows))" and "2 \<le> length weeks"
    and "k < ntries"
    and "\<forall>j<k. env_archive e (replicate j OpenArchive) = None"
    and "env_archive e (replicate k OpenArchive) = Some li_elements"
    and "3 \<le> length li_elements"
    and "li_text (li_elements ! 1) = last weeks"
    and "li_text (li_elements ! 2) = weeks ! (length weeks - 2)"
  shows "run e rows n_urls = (Inl SystemExit, replicate (Suc k) OpenArchive)"
proof -
  have "first_retry_block e (last weeks) (weeks ! (length weeks - 2)) ntries [] =
      (Inl SystemExit, [] @ replicate (Suc k) OpenArchive)"
    by (rule first_retry_block_noop [OF assms(3) _ _ assms(6-8)]) (use assms(4,5) in auto)
  with assms(1,2) show ?thesis by (simp add: run_def Let_def)
qed

theorem noop_exit_witness:
  "run example_slow_env [''W1'', ''W2'', ''W3'', ''W3''] 7 = (Inl SystemExit, [OpenArchive, OpenArchive, OpenArchive])
   \<and> rev (remdups (rev [''W1'', ''W2'', ''W3'', ''W3''])) = [''W1'', ''W2'', ''W3'']
   \<and> env_archive example_slow_env [] = None \<and> env_archive example_slow_env [OpenArchive] = None
   \<and> map li_text example_index = [''W4'', ''W3'', ''W2'']"
proof -
  let ?weeks = "[''W1'', ''W2'', ''W3'']"
  have h1: "?weeks = rev (remdups (rev [''W1'', ''W2'', ''W3'', ''W3'']))" by simp
  have h2: "2 \<le> length ?weeks" by simp
  have h3: "2 < ntries" by (simp add: ntries_def)
  have h4: "\<forall>j<2. env_archive example_slow_env (replicate j OpenArchive) = None"
    by (simp add: example_slow_env_def)
  have h5: "env_archive example_slow_env (replicate 2 OpenArchive) = Some example_index"
    by (simp add: example_slow_env_def)
  have h6: "3 \<le> length example_index" by (simp add: example_index_def)
  have h7: "li_text (example_index ! 1) = last ?weeks" by (simp add: example_index_def)
  have h8: "li_text (example_index ! 2) = ?weeks ! (length ?weeks - 2)" by (simp add: example_index_def)
  from noop_exit [OF h1 h2 h3 h4 h5 h6 h7 h8, of 7]
  have "run example_slow_env [''W1'', ''W2'', ''W3'', ''W3''] 7 = (Inl SystemExit, replicate 3 OpenArchive)"
    by simp
  moreover have "replicate 3 OpenArchive = [OpenArchive, OpenArchive, OpenArchive]"
    by (simp add: numeral_3_eq_3)
  moreover have "env_archive example_slow_env [] = None \<and> env_archive example_slow_env [OpenArchive] = None"
    by (simp add: example_slow_env_def)
  moreover have "map li_text example_index = [''W4'', ''W3'', ''W2'']" by (simp add: example_index_def)
  ultimately show ?thesis using h1 by simp
qed

subsection \<open>The order of the rows\<close>

lemma collect_missing_new:
  "label \<noteq> l \<Longrightarrow> collect_missing e label l url acc w = (Inr mcd, w') \<Longrightarrow>
   \<exists>mc. get_compilation e w url = (Inr mc, w') \<and> mcd = acc @ [mc]"
  by (auto simp: collect_missing_def split: prod.splits sum.splits)

lemma attempt_index_both_new:
  assumes "attempt_index e l p w = (Inr mcd, w')"
    and "env_archive e w = Some li_elements"
    and "li_text (li_elements ! 2) \<noteq> l" and "li_text (li_elements ! 1) \<noteq> l"
  shows "\<exists>u1 u2 older w1 newer.
           li_href (li_elements ! 1) = Some u1 \<and> li_href (li_elements ! 2) = Some u2 \<and>
           get_compilation e (w @ [OpenArchive]) u2 = (Inr older, w1) \<and>
           get_compilation e w1 u1 = (Inr newer, w') \<and> mcd = [older, newer]"
proof -
  from assms(1,2) obtain u1 u2 acc w1 where
    u: "li_href (li_elements ! 1) = Some u1" "li_href (li_elements ! 2) = Some u2"
    and c2: "collect_missing e (li_text (li_elements ! 2)) l u2 [] (w @ [OpenArchive]) = (Inr acc, w1)"
    and c1: "collect_missing e (li_text (li_elements ! 1)) l u1 acc w1 = (Inr mcd, w')"
    by (auto simp: attempt_index_def split: if_splits option.splits prod.splits sum.splits)
  from collect_missing_new [OF assms(3) c2] obtain older where
    o: "get_compilation e (w @ [OpenArchive]) u2 = (Inr older, w1)" "acc = [older]" by auto
  from collect_missing_new [OF assms(4) c1] obtain newer where
    n: "get_compilation e w1 u1 = (Inr newer, w')" "mcd = acc @ [newer]" by auto
  from u o n show ?thesis by (cases older, cases newer) simp
qed

lemma scrape_messages_two_weeks:
  assumes "us \<noteq> []" and "vs \<noteq> []"
  shows "scrape_messages e n [(wa, us), (wb, vs)] url_var dc w =
           (Inr (fst (fold (scrape_url e n wb) vs (fold (scrape_url e n wa) us (dc, w)))),
            snd (fold (scrape_url e n wb) vs (fold (scrape_url e n wa) us (dc, w))))"
  using assms by (simp split: prod.splits)

lemma two_weeks_order:
  assumes "a \<in> set (drop (length dc) (fst (fold (scrape_url e n wa) us (dc, w))))"
    and "b \<in> set (drop (length (fst (fold (scrape_url e n wa) us (dc, w))))
                  (fst (fold (scrape_url e n wb) vs (fold (scrape_url e n wa) us (dc, w)))))"
  shows "\<exists>x y. a ! 0 = PInt x \<and> b ! 0 = PInt y \<and> x < y \<and> a ! 1 = PStr wa \<and> b ! 1 = PStr wb"
proof -
  from fold_rows_bounds [of a "(dc, w)" e n wa us] assms(1) obtain x where
    x: "a ! 0 = PInt x" "a ! 1 = PStr wa"
       "x \<le> int n + int (length (fst (fold (scrape_url e n wa) us (dc, w))))" by auto
  from fold_rows_bounds [of b "fold (scrape_url e n wa) us (dc, w)" e n wb vs] assms(2) obtain y where
    y: "b ! 0 = PInt y" "b ! 1 = PStr wb"
       "int n + int (length (fst (fold (scrape_url e n wa) us (dc, w)))) < y" by auto
  from x y show ?thesis by auto
qed

text \<open>
  C6. When both compilations are new, the previous to previous to latest one is fetched
  first and listed first, and the list is scraped in that order: every row of the first
  week has a smaller identifier than every row of the second. Within a week, for
  \<open>i < j\<close> every row of \<open>urls ! i\<close> has a smaller identifier than every row of
  \<open>urls ! j\<close>, and both have rows.
\<close>

theorem output_order:
  "(attempt_index e l p w = (Inr missing_compilations_data, w')
      \<and> env_archive e w = Some li_elements
      \<and> li_text (li_elements ! 2) \<noteq> l \<and> li_text (li_elements ! 1) \<noteq> l
    \<longrightarrow> (\<exists>u1 u2 older w1 newer.
           li_href (li_elements ! 1) = Some u1 \<and> li_href (li_elements ! 2) = Some u2 \<and>
           get_compilation e (w @ [OpenArchive]) u2 = (Inr older, w1) \<and>
           get_compilation e w1 u1 = (Inr newer, w') \<and> missing_compilations_data = [older, newer]))
   \<and> (us \<noteq> [] \<and> vs \<noteq> []
    \<longrightarrow> scrape_messages e n [(wa, us), (wb, vs)] url_var dc w0 =
           (Inr (fst (fold (scrape_url e n wb) vs (fold (scrape_url e n wa) us (dc, w0)))),
            snd (fold (scrape_url e n wb) vs (fold (scrape_url e n wa) us (dc, w0))))
        \<and> (\<forall>a \<in> set (drop (length dc) (fst (fold (scrape_url e n wa) us (dc, w0)))).
            \<forall>b \<in> set (drop (length (fst (fold (scrape_url e n wa) us (dc, w0))))
                         (fst (fold (scrape_url e n wb) vs (fold (scrape_url e n wa) us (dc, w0))))).
              \<exists>x y. a ! 0 = PInt x \<and> b ! 0 = PInt y \<and> x < y \<and> a ! 1 = PStr wa \<and> b ! 1 = PStr wb))
   \<and> (i < j \<and> j < length urls
    \<longrightarrow> rows_of_round e n week urls st i \<noteq> [] \<and> rows_of_round e n week urls st j \<noteq> []
        \<and> (\<forall>a \<in> set (rows_of_round e n week urls st i).
            \<forall>b \<in> set (rows_of_round e n week urls st j).
              \<exists>x y. a ! 0 = PInt x \<and> b ! 0 = PInt y \<and> x < y
                   \<and> a ! 2 = PStr (urls ! i) \<and> b ! 2 = PStr (urls ! j)))"
proof (intro conjI impI)
  assume "attempt_index e l p w = (Inr missing_compilations_data, w')
      \<and> env_archive e w = Some li_elements
      \<and> li_text (li_elements ! 2) \<noteq> l \<and> li_text (li_elements ! 1) \<noteq> l"
  then show "\<exists>u1 u2 older w1 newer.
           li_href (li_elements ! 1) = Some u1 \<and> li_href (li_elements ! 2) = Some u2 \<and>
           get_compilation e (w @ [OpenArchive]) u2 = (Inr older, w1) \<and>
           get_compilation e w1 u1 = (Inr newer, w') \<and> missing_compilations_data = [older, newer]"
    using attempt_index_both_new [of e l p w missing_compilations_data w' li_elements] by blast
next
  assume "us \<noteq> [] \<and> vs \<noteq> []"
  then show "scrape_messages e n [(wa, us), (wb, vs)] url_var dc w0 =
           (Inr (fst (fold (scrape_url e n wb) vs (fold (scrape_url e n wa) us (dc, w0)))),
            snd (fold (scrape_url e n wb) vs (fold (scrape_url e n wa) us (dc, w0))))"
    using scrape_messages_two_weeks [of us vs e n wa wb url_var dc w0] by blast
next
  show "\<forall>a \<in> set (drop (length dc) (fst (fold (scrape_url e n wa) us (dc, w0)))).
            \<forall>b \<in> set (drop (length (fst (fold (scrape_url e n wa) us (dc, w0))))
                         (fst (fold (scrape_url e n wb) vs (fold (scrape_url e n wa) us (dc, w0))))).
              \<exists>x y. a ! 0 = PInt x \<and> b ! 0 = PInt y \<and> x < y \<and> a ! 1 = PStr wa \<and> b ! 1 = PStr wb"
    using two_weeks_order [of _ dc e n wa us w0 _ wb vs] by blast
next
  assume "i < j \<and> j < length urls"
  then have "i < length urls" by simp
  then show "rows_of_round e n week urls st i \<noteq> []"
    using rows_of_round_length [of i urls e n week st] by auto
next
  assume "i < j \<and> j < length urls"
  then show "rows_of_round e n week urls st j \<noteq> []"
    using rows_of_round_length [of j urls e n week st] by auto
next
  assume ij: "i < j \<and> j < length urls"
  show "\<forall>a \<in> set (rows_of_round e n week urls st i).
            \<forall>b \<in> set (rows_of_round e n week urls st j).
              \<exists>x y. a ! 0 = PInt x \<and> b ! 0 = PInt y \<and> x < y
                   \<and> a ! 2 = PStr (urls ! i) \<and> b ! 2 = PStr (urls ! j)"
    using rows_of_round_order [of i j urls _ e n week st] ij by blast
qed

lemma example_both_new:
  "attempt_index example_env ''W1'' ''W0'' [] =
     (Inr [(''W2'', []), (''W3'', [''https://a/p1'', ''https://a/p2''])],
      [OpenArchive, Get ''https://a/w2'', Get ''https://a/w3''])"
  by code_simp

lemma example_older:
  "get_compilation example_env [OpenArchive] ''https://a/w2'' =
     (Inr (''W2'', []), [OpenArchive, Get ''https://a/w2''])"
  by code_simp

lemma example_newer:
  "get_compilation example_env [OpenArchive, Get ''https://a/w2''] ''https://a/w3'' =
     (Inr (''W3'', [''https://a/p1'', ''https://a/p2'']),
      [OpenArchive, Get ''https://a/w2'', Get ''https://a/w3''])"
  by code_simp

lemma example_round_ids:
  "map (\<lambda>r. r ! 0) (rows_of_round example_env 3 ''W3'' [''https://a/p1'', ''https://a/p2''] ([], []) 0)
     = [PInt 4, PInt 4]
   \<and> map (\<lambda>r. r ! 0) (rows_of_round example_env 3 ''W3'' [''https://a/p1'', ''https://a/p2''] ([], []) 1)
     = [PInt 6]"
  by code_simp

lemma example_two_weeks:
  "map (\<lambda>r. (r ! 0, r ! 1))
     (projr (fst (scrape_messages example_env 3 [(''W3'', [''https://a/p1'']), (''W4'', [''https://a/p2''])]
                    None [] [])))
     = [(PInt 4, PStr ''W3''), (PInt 4, PStr ''W3''), (PInt 6, PStr ''W4'')]"
  by code_simp

theorem output_order_witness:
  "attempt_index example_env ''W1'' ''W0'' [] =
     (Inr [(''W2'', []), (''W3'', [''https://a/p1'', ''https://a/p2''])],
      [OpenArchive, Get ''https://a/w2'', Get ''https://a/w3''])
   \<and> (\<exists>u1 u2 older w1 newer.
        li_href (example_index ! 1) = Some u1 \<and> li_href (example_index ! 2) = Some u2 \<and>
        get_compilation example_env ([] @ [OpenArchive]) u2 = (Inr older, w1) \<and>
        get_compilation example_env w1 u1 =
          (Inr newer, [OpenArchive, Get ''https://a/w2'', Get ''https://a/w3'']) \<and>
        [(''W2'', []), (''W3'', [''https://a/p1'', ''https://a/p2''])] = [older, newer])
   \<and> get_compilation example_env [OpenArchive] ''https://a/w2'' =
     (Inr (''W2'', []), [OpenArchive, Get ''https://a/w2''])
   \<and> get_compilation example_env [OpenArchive, Get ''https://a/w2''] ''https://a/w3'' =
     (Inr (''W3'', [''https://a/p1'', ''https://a/p2'']),
      [OpenArchive, Get ''https://a/w2'', Get ''https://a/w3''])
   \<and> map (\<lambda>r. (r ! 0, r ! 1))
     (projr (fst (scrape_messages example_env 3 [(''W3'', [''https://a/p1'']), (''W4'', [''https://a/p2''])]
                    None [] [])))
     = [(PInt 4, PStr ''W3''), (PInt 4, PStr ''W3''), (PInt 6, PStr ''W4'')]
   \<and> rows_of_round example_env 3 ''W3'' [''https://a/p1'', ''https://a/p2''] ([], []) 0 \<noteq> []
   \<and> rows_of_round example_env 3 ''W3'' [''https://a/p1'', ''https://a/p2''] ([], []) 1 \<noteq> []
   \<and> map (\<lambda>r. r ! 0) (rows_of_round example_env 3 ''W3'' [''https://a/p1'', ''https://a/p2''] ([], []) 0)
     = [PInt 4, PInt 4]
   \<and> map (\<lambda>r. r ! 0) (rows_of_round example_env 3 ''W3'' [''https://a/p1'', ''https://a/p2''] ([], []) 1)
     = [PInt 6]"
proof -
  note c = output_order [where e = example_env and l = "''W1''" and p = "''W0''" and w = "[]"
      and missing_compilations_data = "[(''W2'', []), (''W3'', [''https://a/p1'', ''https://a/p2''])]"
      and w' = "[OpenArchive, Get ''https://a/w2'', Get ''https://a/w3'']"
      and li_elements = example_index and us = "[''https://a/p1'']" and vs = "[''https://a/p2'']"
      and n = 3 and wa = "''W3''" and wb = "''W4''" and url_var = None and dc = "[]" and ?w0.0 = "[]"
      and i = 0 and j = 1 and urls = "[''https://a/p1'', ''https://a/p2'']" and week = "''W3''"
      and st = "([], [])"]
  have h: "env_archive example_env [] = Some example_index
         \<and> li_text (example_index ! 2) \<noteq> ''W1'' \<and> li_text (example_index ! 1) \<noteq> ''W1''"
    by (simp add: example_env_def example_index_def)
  from c example_both_new h
  have weeks: "\<exists>u1 u2 older w1 newer.
        li_href (example_index ! 1) = Some u1 \<and> li_href (example_index ! 2) = Some u2 \<and>
        get_compilation example_env ([] @ [OpenArchive]) u2 = (Inr older, w1) \<and>
        get_compilation example_env w1 u1 =
          (Inr newer, [OpenArchive, Get ''https://a/w2'', Get ''https://a/w3'']) \<and>
        [(''W2'', []), (''W3'', [''https://a/p1'', ''https://a/p2''])] = [older, newer]"
    by blast
  have "(0::nat) < 1 \<and> 1 < length [''https://a/p1'', ''https://a/p2'']" by simp
  with c have rounds:
    "rows_of_round example_env 3 ''W3'' [''https://a/p1'', ''https://a/p2''] ([], []) 0 \<noteq> []
     \<and> rows_of_round example_env 3 ''W3'' [''https://a/p1'', ''https://a/p2''] ([], []) 1 \<noteq> []"
    by blast
  from example_both_new weeks example_older example_newer example_two_weeks rounds example_round_ids
  show ?thesis by blast
qed

subsection \<open>Fetching the embedded URLs\<close>

lemma get_selenium_response_exhausted:
  "all_responses_fail e url r w \<Longrightarrow>
   get_selenium_response e url r w = (Inl Fault, w @ replicate r (Response url))"
proof (induction r arbitrary: w)
  case 0
  show ?case by simp
next
  case (Suc r)
  then have "env_response e w url = None" and "all_responses_fail e url r (w @ [Response url])"
    by simp_all
  with Suc.IH [of "w @ [Response url]"] show ?case
    by (cases r) (simp_all add: replicate_app_Cons_same)
qed

lemma get_selenium_response_bounded:
  "\<exists>k\<le>r. snd (get_selenium_response e url r w) = w @ replicate k (Response url)"
proof (induction r arbitrary: w)
  case 0
  show ?case by simp
next
  case (Suc r)
  show ?case
  proof (cases "env_response e w url")
    case (Some src)
    then have "snd (get_selenium_response e url (Suc r) w) = w @ replicate 1 (Response url)" by simp
    then show ?thesis by (intro exI [of _ 1]) simp
  next
    case None
    show ?thesis
    proof (cases "0 < r")
      case True
      from Suc.IH [of "w @ [Response url]"] obtain k where
        k: "k \<le> r" "snd (get_selenium_response e url r (w @ [Response url])) =
              (w @ [Response url]) @ replicate k (Response url)" by blast
      with None True have "snd (get_selenium_response e url (Suc r) w) = w @ replicate (Suc k) (Response url)"
        by simp
      with k(1) show ?thesis by (intro exI [of _ "Suc k"]) simp
    next
      case False
      with None have "snd (get_selenium_response e url (Suc r) w) = w @ replicate 1 (Response url)" by simp
      then show ?thesis by (intro exI [of _ 1]) simp
    qed
  qed
qed

lemma for_urls_in_message_append:
  "for_urls_in_message e n dp (xs @ ys) out w =
     (case for_urls_in_message e n dp xs out w of
        (Inl x, w') \<Rightarrow> (Inl x, w')
      | (Inr out', w') \<Rightarrow> for_urls_in_message e n dp ys out' w')"
  by (induction xs arbitrary: out w) (auto split: prod.splits sum.splits)

lemma scrape_urls_inside_messages_append:
  "scrape_urls_inside_messages e n (xs @ ys) out w =
     (case scrape_urls_inside_messages e n xs out w of
        (Inl x, w') \<Rightarrow> (Inl x, w')
      | (Inr out', w') \<Rightarrow> scrape_urls_inside_messages e n ys out' w')"
  by (induction xs arbitrary: out w) (auto split: prod.splits sum.splits option.splits)

lemma scrape_url_in_message_exhausted:
  "3 \<le> length dp \<Longrightarrow> all_responses_fail e u (env_max_attempts e) w \<Longrightarrow>
   scrape_url_in_message e n dp u out w = (Inl Fault, w @ replicate (env_max_attempts e) (Response u))"
  by (simp add: scrape_url_in_message_def get_selenium_response_exhausted)

text \<open>
  C7. Any embedded URL is fetched at most \<open>env_max_attempts\<close> times, from any world.
  When the loop reaches an embedded URL \<open>u\<close> and each of these fetches raises, the run
  ends with that fault: no row of either list is handed on, and no row with the FAILURE
  sentinel is made for the URL.
\<close>

theorem embedded_fetch_fatal:
  assumes "2 \<le> length (rev (remdups (rev rows)))"
    and "first_retry_block e (last (rev (remdups (rev rows))))
           (rev (remdups (rev rows)) ! (length (rev (remdups (rev rows))) - 2)) ntries [] =
         (Inr missing_compilations_data, wa)"
    and "scrape_messages e (length rows) missing_compilations_data None [] wa =
         (Inr (before @ data_posting # rest), w0)"
    and "scrape_urls_inside_messages e n_urls before [] w0 = (Inr out1, w1)"
    and "3 \<le> length data_posting"
    and "env_extract_urls e (last data_posting) = Some (us1 @ u # us2)"
    and "for_urls_in_message e n_urls data_posting us1 out1 w1 = (Inr out2, w2)"
    and "all_responses_fail e u (env_max_attempts e) w2"
  shows "run e rows n_urls = (Inl Fault, w2 @ replicate (env_max_attempts e) (Response u))
       \<and> (\<exists>k\<le>env_max_attempts e.
            snd (get_selenium_response e url_in_message (env_max_attempts e) w) =
              w @ replicate k (Response url_in_message))"
proof -
  from assms(5) have ne: "data_posting \<noteq> []" by auto
  have "for_urls_in_message e n_urls data_posting (us1 @ u # us2) out1 w1 =
      (Inl Fault, w2 @ replicate (env_max_attempts e) (Response u))"
    using assms(7) scrape_url_in_message_exhausted [OF assms(5) assms(8), of n_urls out2]
    by (simp add: for_urls_in_message_append)
  with ne assms(6) have "scrape_urls_inside_messages e n_urls (data_posting # rest) out1 w1 =
      (Inl Fault, w2 @ replicate (env_max_attempts e) (Response u))"
    by simp
  with assms(4) have "scrape_urls_inside_messages e n_urls (before @ data_posting # rest) [] w0 =
      (Inl Fault, w2 @ replicate (env_max_attempts e) (Response u))"
    by (simp add: scrape_urls_inside_messages_append)
  with assms(1-3) have "run e rows n_urls = (Inl Fault, w2 @ replicate (env_max_attempts e) (Response u))"
    by (simp add: run_def Let_def)
  with get_selenium_response_bounded [of "env_max_attempts e" e url_in_message w] show ?thesis by blast
qed

theorem embedded_fetch_fatal_witness:
  "all_responses_fail example_offline_env ''http://x.y'' 3
     ([OpenArchive, Get ''https://a/w3''] @ replicate 15 (Get ''https://a/p1'')
        @ [Get ''https://a/p2'', Get ''https://listserv.kent.edu/m2''])
   \<and> run example_offline_env [''W1'', ''W2'', ''W2''] 7 =
       (Inl Fault,
        [OpenArchive, Get ''https://a/w3''] @ replicate 15 (Get ''https://a/p1'')
        @ [Get ''https://a/p2'', Get ''https://listserv.kent.edu/m2'',
           Response ''http://x.y'', Response ''http://x.y'', Response ''http://x.y''])"
proof -
  let ?e = example_offline_env
  let ?rows = "[''W1'', ''W2'', ''W2'']"
  let ?w0 = "[OpenArchive, Get ''https://a/w3''] @ replicate 15 (Get ''https://a/p1'')
        @ [Get ''https://a/p2'', Get ''https://listserv.kent.edu/m2'']"
  let ?r1 = "[PInt 4, PStr ''W3'', PStr ''https://a/p1'', PStr ''2024-08-19 06:00:00'',
            PStr ''FAILURE'', PStr ''FAILURE'', PStr ''FAILURE'']"
  let ?r2 = "[PInt 6, PStr ''W3'', PStr ''https://a/p2'', PStr ''2024-08-19 06:00:00'',
            PBool False, PStr ''https://listserv.kent.edu/m2'', PStr ''see http://x.y'']"
  have h1: "2 \<le> length (rev (remdups (rev ?rows)))" by simp
  have h2: "first_retry_block ?e (last (rev (remdups (rev ?rows))))
           (rev (remdups (rev ?rows)) ! (length (rev (remdups (rev ?rows))) - 2)) ntries [] =
         (Inr [(''W3'', [''https://a/p1'', ''https://a/p2''])], [OpenArchive, Get ''https://a/w3''])"
    by code_simp
  have h3: "scrape_messages ?e (length ?rows) [(''W3'', [''https://a/p1'', ''https://a/p2''])] None []
              [OpenArchive, Get ''https://a/w3''] = (Inr ([?r1, ?r1] @ ?r2 # []), ?w0)"
    by code_simp
  have h4: "scrape_urls_inside_messages ?e 7 [?r1, ?r1] [] ?w0 = (Inr [], ?w0)" by code_simp
  have h5: "3 \<le> length ?r2" by simp
  have h6: "env_extract_urls ?e (last ?r2) = Some ([] @ ''http://x.y'' # [])" by code_simp
  have h7: "for_urls_in_message ?e 7 ?r2 [] [] ?w0 = (Inr [], ?w0)" by simp
  have h8: "all_responses_fail ?e ''http://x.y'' (env_max_attempts ?e) ?w0" by code_simp
  have m: "env_max_attempts ?e = 3" by code_simp
  from embedded_fetch_fatal [OF h1 h2 h3 h4 h5 h6 h7 h8]
  have "run ?e ?rows 7 = (Inl Fault, ?w0 @ replicate 3 (Response ''http://x.y''))"
    unfolding m by blast
  moreover have "replicate 3 (Response ''http://x.y'') =
      [Response ''http://x.y'', Response ''http://x.y'', Response ''http://x.y'']"
    by (simp add: numeral_3_eq_3)
  ultimately have "run ?e ?rows 7 =
      (Inl Fault, [OpenArchive, Get ''https://a/w3''] @ replicate 15 (Get ''https://a/p1'')
        @ [Get ''https://a/p2'', Get ''https://listserv.kent.edu/m2'',
           Response ''http://x.y'', Response ''http://x.y'', Response ''http://x.y''])"
    by (simp only: append_assoc append_Cons append_Nil)
  moreover from h8 have "all_responses_fail ?e ''http://x.y'' 3 ?w0" unfolding m .
  ultimately show ?thesis by blast
qed

subsection \<open>Empty weeks\<close>

text \<open>
  C8. The claim fails on a run whose first new week has no posting: the ledger ends with
  W0 and W1, the weeks W2 and W3 are new, the compilation of W2 has no posting. The run
  raises NameError at line 614 and hands on no row. (When \<open>url\<close> is bound the empty week
  gets its one row, see \<open>empty_week_row\<close>.)
\<close>

theorem empty_week_run_faults:
  "run example_env [''W0'', ''W1''] 7 =
     (Inl NameError, [OpenArchive, Get ''https://a/w2'', Get ''https://a/w3''])"
  by code_simp

lemma empty_week_row:
  "scrape_messages e n ((week, []) # rest) (Some url) dc w =
     scrape_messages e n rest (Some url)
       (dc @ [[PInt (int n + int (length dc) + 1), PStr week, PStr url, PStr (env_now e w),
               PNone, PNone, PNone]]) w"
  by simp

text \<open>
  C10. When the first week that is scraped has no posting URL, \<open>url\<close> is not bound yet:
  the loop raises NameError there, before it appends anything, and so does the run.
\<close>

theorem empty_first_week_faults:
  "scrape_messages e n_compilations ((week, []) # rest) None data_compilation w = (Inl NameError, w)
   \<and> (2 \<le> length (rev (remdups (rev rows))) \<and>
       first_retry_block e (last (rev (remdups (rev rows))))
           (rev (remdups (rev rows)) ! (length (rev (remdups (rev rows))) - 2)) ntries [] =
         (Inr ((week, []) # rest), w)
       \<longrightarrow> run e rows n_urls = (Inl NameError, w))"
  by (simp add: run_def Let_def)

lemma example_missing:
  "first_retry_block example_env ''W1'' ''W0'' ntries [] =
     (Inr [(''W2'', []), (''W3'', [''https://a/p1'', ''https://a/p2''])],
      [OpenArchive, Get ''https://a/w2'', Get ''https://a/w3''])"
  by code_simp

theorem empty_first_week_faults_witness:
  "first_retry_block example_env ''W1'' ''W0'' ntries [] =
     (Inr [(''W2'', []), (''W3'', [''https://a/p1'', ''https://a/p2''])],
      [OpenArchive, Get ''https://a/w2'', Get ''https://a/w3''])
   \<and> scrape_messages example_env 2 [(''W2'', []), (''W3'', [''https://a/p1'', ''https://a/p2''])] None []
       [OpenArchive, Get ''https://a/w2'', Get ''https://a/w3''] =
       (Inl NameError, [OpenArchive, Get ''https://a/w2'', Get ''https://a/w3''])"
  using example_missing
    empty_first_week_faults [of example_env 2 "''W2''" "[(''W3'', [''https://a/p1'', ''https://a/p2''])]" "[]"
      "[OpenArchive, Get ''https://a/w2'', Get ''https://a/w3'']" "[]" 0]
  by simp

subsection \<open>Rows without a text\<close>

lemma url_extractor_spec_empty:
  assumes "url_extractor_spec url_pattern extract"
    and "\<forall>u. str_in u ''FAILURE'' \<longrightarrow> \<not> url_pattern u"
    and "v = PNone \<or> v = FAILURE"
  shows "extract v = None \<or> extract v = Some []"
proof (cases "extract v")
  case None
  then show ?thesis by simp
next
  case (Some urls)
  have "urls = []"
  proof (rule ccontr)
    assume "urls \<noteq> []"
    then obtain u where u: "u \<in> set urls" by (cases urls) auto
    with assms(1) Some obtain body where t: "v = PStr body" "str_in u body" "url_pattern u"
      unfolding url_extractor_spec_def by blast
    with assms(3) have "body = ''FAILURE''" by (auto simp: FAILURE_def)
    with t assms(2) show False by blast
  qed
  with Some show ?thesis by simp
qed

lemma for_urls_in_message_rows:
  "for_urls_in_message e n dp us out w = (Inr out', w') \<Longrightarrow>
   \<exists>new. out' = out @ new \<and> length new = length us \<and> (\<forall>r \<in> set new. r ! 0 = dp ! 0)"
proof (induction us arbitrary: out w)
  case Nil
  then show ?case by simp
next
  case (Cons u us)
  from Cons.prems obtain out1 w1 where
    s: "scrape_url_in_message e n dp u out w = (Inr out1, w1)"
    and f: "for_urls_in_message e n dp us out1 w1 = (Inr out', w')"
    by (auto split: prod.splits sum.splits)
  from scrape_url_in_message_rows [OF s] obtain r where r: "out1 = out @ [r]" "r ! 0 = dp ! 0" by blast
  from Cons.IH [OF f] obtain new where
    n: "out' = out1 @ new" "length new = length us" "\<forall>r \<in> set new. r ! 0 = dp ! 0" by blast
  from r n show ?case by (intro exI [of _ "r # new"]) simp
qed

lemma scrape_urls_inside_messages_rows:
  "scrape_urls_inside_messages e n dc out w = (Inr out', w') \<Longrightarrow>
   \<exists>new. out' = out @ new \<and>
     (\<forall>r \<in> set new. \<exists>dp \<in> set dc. \<exists>us. env_extract_urls e (last dp) = Some us \<and> us \<noteq> [] \<and> r ! 0 = dp ! 0)"
proof (induction dc arbitrary: out w)
  case Nil
  then show ?case by simp
next
  case (Cons dp dc)
  from Cons.prems obtain us out1 w1 where
    x: "env_extract_urls e (last dp) = Some us"
    and f: "for_urls_in_message e n dp us out w = (Inr out1, w1)"
    and s: "scrape_urls_inside_messages e n dc out1 w1 = (Inr out', w')"
    by (auto split: if_splits prod.splits sum.splits option.splits)
  from for_urls_in_message_rows [OF f] obtain new1 where
    n1: "out1 = out @ new1" "length new1 = length us" "\<forall>r \<in> set new1. r ! 0 = dp ! 0" by blast
  from Cons.IH [OF s] obtain new2 where
    n2: "out' = out1 @ new2"
      "\<forall>r \<in> set new2. \<exists>dp \<in> set dc. \<exists>us. env_extract_urls e (last dp) = Some us \<and> us \<noteq> [] \<and> r ! 0 = dp ! 0"
    by blast
  have "\<forall>r \<in> set (new1 @ new2). \<exists>dp' \<in> set (dp # dc). \<exists>us.
          env_extract_urls e (last dp') = Some us \<and> us \<noteq> [] \<and> r ! 0 = dp' ! 0"
  proof
    fix r assume "r \<in> set (new1 @ new2)"
    then consider "r \<in> set new1" | "r \<in> set new2" by auto
    then show "\<exists>dp' \<in> set (dp # dc). \<exists>us.
          env_extract_urls e (last dp') = Some us \<and> us \<noteq> [] \<and> r ! 0 = dp' ! 0"
    proof cases
      case 1
      with n1 have "us \<noteq> []" and "r ! 0 = dp ! 0" by auto
      with x show ?thesis by auto
    next
      case 2
      with n2(2) show ?thesis by auto
    qed
  qed
  with n1(1) n2(1) show ?case by (intro exI [of _ "new1 @ new2"]) simp
qed

text \<open>
  C9. With an extractor as the spec describes it, and a URL pattern that nothing inside
  the word FAILURE matches: a row whose text is None or the FAILURE sentinel adds no row
  to the list of the embedded URLs (either the extractor raises on it and the run ends,
  or the loop goes on with the list as it was), and every row of that list carries the
  identifier of a posting row whose text is neither.
\<close>

theorem no_rows_from_null_or_failure:
  assumes "url_extractor_spec url_pattern (env_extract_urls e)"
    and "\<forall>u. str_in u ''FAILURE'' \<longrightarrow> \<not> url_pattern u"
  shows "(data_posting \<noteq> [] \<and> (last data_posting = PNone \<or> last data_posting = FAILURE) \<longrightarrow>
            scrape_urls_inside_messages e n_urls (data_posting # rest) out w = (Inl Fault, w) \<or>
            scrape_urls_inside_messages e n_urls (data_posting # rest) out w =
              scrape_urls_inside_messages e n_urls rest out w)
       \<and> (scrape_urls_inside_messages e n_urls data_compilation [] w = (Inr out', w') \<longrightarrow>
            (\<forall>r \<in> set out'. \<exists>dp \<in> set data_compilation.
               r ! 0 = dp ! 0 \<and> last dp \<noteq> PNone \<and> last dp \<noteq> FAILURE))"
proof (intro conjI impI)
  assume a: "data_posting \<noteq> [] \<and> (last data_posting = PNone \<or> last data_posting = FAILURE)"
  then have "last data_posting = PNone \<or> last data_posting = FAILURE" by simp
  from url_extractor_spec_empty [OF assms this]
  show "scrape_urls_inside_messages e n_urls (data_posting # rest) out w = (Inl Fault, w) \<or>
        scrape_urls_inside_messages e n_urls (data_posting # rest) out w =
          scrape_urls_inside_messages e n_urls rest out w"
    using a by auto
next
  assume "scrape_urls_inside_messages e n_urls data_compilation [] w = (Inr out', w')"
  from scrape_urls_inside_messages_rows [OF this]
  have rows: "\<forall>r \<in> set out'. \<exists>dp \<in> set data_compilation. \<exists>us.
      env_extract_urls e (last dp) = Some us \<and> us \<noteq> [] \<and> r ! 0 = dp ! 0" by simp
  show "\<forall>r \<in> set out'. \<exists>dp \<in> set data_compilation.
               r ! 0 = dp ! 0 \<and> last dp \<noteq> PNone \<and> last dp \<noteq> FAILURE"
  proof
    fix r assume "r \<in> set out'"
    with rows obtain dp us where dp: "dp \<in> set data_compilation"
      "env_extract_urls e (last dp) = Some us" "us \<noteq> []" "r ! 0 = dp ! 0" by blast
    have "\<not> (last dp = PNone \<or> last dp = FAILURE)"
    proof
      assume "last dp = PNone \<or> last dp = FAILURE"
      from url_extractor_spec_empty [OF assms this] dp(2,3) show False by simp
    qed
    with dp show "\<exists>dp \<in> set data_compilation. r ! 0 = dp ! 0 \<and> last dp \<noteq> PNone \<and> last dp \<noteq> FAILURE"
      by blast
  qed
qed

lemma example_extractor_spec: "url_extractor_spec example_url_pattern (env_extract_urls example_env)"
  by (auto simp: url_extractor_spec_def example_url_pattern_def example_env_def split: if_splits)

lemma example_pattern_failure: "\<forall>u. str_in u ''FAILURE'' \<longrightarrow> \<not> example_url_pattern u"
proof (intro allI impI notI)
  fix u assume "str_in u ''FAILURE''" and "example_url_pattern u"
  then have "str_in ''http://x.y'' ''FAILURE''" by (simp add: example_url_pattern_def)
  then show False by simp
qed

theorem no_rows_from_null_or_failure_witness:
  "url_extractor_spec example_url_pattern (env_extract_urls example_env)
   \<and> \<not> str_in ''http://x.y'' ''FAILURE''
   \<and> scrape_urls_inside_messages example_env 7
        [[PInt 4, PStr ''W3'', PStr ''https://a/p1'', PStr ''2024-08-19 06:00:00'', FAILURE, FAILURE, FAILURE],
         [PInt 6, PStr ''W3'', PStr ''https://a/p2'', PStr ''2024-08-19 06:00:00'',
          PBool False, PStr ''https://listserv.kent.edu/m2'', PStr ''see http://x.y'']] [] []
     = scrape_urls_inside_messages example_env 7
        [[PInt 6, PStr ''W3'', PStr ''https://a/p2'', PStr ''2024-08-19 06:00:00'',
          PBool False, PStr ''https://listserv.kent.edu/m2'', PStr ''see http://x.y'']] [] []
   \<and> scrape_urls_inside_messages example_env 7
        [[PInt 6, PStr ''W3'', PStr ''https://a/p2'', PStr ''2024-08-19 06:00:00'',
          PBool False, PStr ''https://listserv.kent.edu/m2'', PStr ''see http://x.y'']] [] []
     = (Inr [[PInt 6, PInt 8, PStr ''W3'', PStr ''https://a/p2'', PStr ''http://x.y'',
              PStr ''2024-08-19 06:00:00'', PBool False, PStr ''page'', PStr ''see http://x.y'']],
        [Response ''http://x.y''])
   \<and> scrape_urls_inside_messages example_env 7
        [[PInt 5, PStr ''W2'', PStr ''https://a/p2'', PStr ''2024-08-19 06:00:00'', PNone, PNone, PNone]] [] []
     = (Inl Fault, [])"
proof -
  let ?r1 = "[PInt 4, PStr ''W3'', PStr ''https://a/p1'', PStr ''2024-08-19 06:00:00'', FAILURE, FAILURE, FAILURE]"
  let ?r2 = "[PInt 6, PStr ''W3'', PStr ''https://a/p2'', PStr ''2024-08-19 06:00:00'',
          PBool False, PStr ''https://listserv.kent.edu/m2'', PStr ''see http://x.y'']"
  let ?r0 = "[PInt 5, PStr ''W2'', PStr ''https://a/p2'', PStr ''2024-08-19 06:00:00'', PNone, PNone, PNone]"
  note c = no_rows_from_null_or_failure [OF example_extractor_spec example_pattern_failure]
  have "?r1 \<noteq> [] \<and> (last ?r1 = PNone \<or> last ?r1 = FAILURE)" by simp
  with c [of ?r1 7 "[?r2]" "[]" "[]"]
  have "scrape_urls_inside_messages example_env 7 [?r1, ?r2] [] [] = (Inl Fault, []) \<or>
        scrape_urls_inside_messages example_env 7 [?r1, ?r2] [] [] =
          scrape_urls_inside_messages example_env 7 [?r2] [] []"
    by blast
  moreover have "scrape_urls_inside_messages example_env 7 [?r1, ?r2] [] [] \<noteq> (Inl Fault, [])"
    by code_simp
  ultimately have failure: "scrape_urls_inside_messages example_env 7 [?r1, ?r2] [] [] =
          scrape_urls_inside_messages example_env 7 [?r2] [] []"
    by blast
  have "?r0 \<noteq> [] \<and> (last ?r0 = PNone \<or> last ?r0 = FAILURE)" by simp
  with c [of ?r0 7 "[]" "[]" "[]"]
  have "scrape_urls_inside_messages example_env 7 [?r0] [] [] = (Inl Fault, []) \<or>
        scrape_urls_inside_messages example_env 7 [?r0] [] [] =
          scrape_urls_inside_messages example_env 7 [] [] []"
    by blast
  moreover have "scrape_urls_inside_messages example_env 7 [?r0] [] [] \<noteq>
      scrape_urls_inside_messages example_env 7 [] [] []"
    by code_simp
  ultimately have null: "scrape_urls_inside_messages example_env 7 [?r0] [] [] = (Inl Fault, [])"
    by blast
  have other: "scrape_urls_inside_messages example_env 7 [?r2] [] [] =
      (Inr [[PInt 6, PInt 8, PStr ''W3'', PStr ''https://a/p2'', PStr ''http://x.y'',
              PStr ''2024-08-19 06:00:00'', PBool False, PStr ''page'', PStr ''see http://x.y'']],
        [Response ''http://x.y''])"
    by code_simp
  have "\<not> str_in ''http://x.y'' ''FAILURE''" by simp
  with example_extractor_spec failure other null show ?thesis by blast
qed

end
